theory Spec2Isabelle
  imports Main "HOL-Library.AList" "HOL-Library.Char_ord" "HOL-Library.List_Lexorder"
begin

section \<open>Python values, dictionaries and errors\<close>

text \<open>
  The embedding follows \<^verbatim>\<open>pysph/sph/integrator_opencl_helper.py\<close>. Objects owned by
  collaborators (particle arrays, their device helpers, the command queue, the neighbour
  search, the parallel manager, the acceleration evaluator, the post-stage callback) are
  references, numbered. Device buffer addresses are numbers too.
\<close>

type_synonym obj = nat
type_synonym addr = nat

text \<open>
  The exceptions the module itself can raise: a missing dictionary key, a missing
  attribute (also an attribute read on \<^verbatim>\<open>None\<close>), calling a value that is not callable
  and a list assignment out of range.
\<close>

datatype py_error =
    KeyError string
  | AttributeError string
  | TypeError string
  | IndexError

datatype dtype = Float32 | Float64

text \<open>
  A stepper is an instance of an integrator-step class. The module reads its class name
  and asks which attributes it has (\<^verbatim>\<open>hasattr\<close>, \<^verbatim>\<open>getattr\<close>).
\<close>

datatype stepper = Stepper (cls_name: string) (attrs: "string list")

datatype py_method = Bound_method stepper string

text \<open>
  The values that occur in the argument lists of the call table and of a kernel launch:
  the queue, \<^verbatim>\<open>None\<close>, the one-element tuple \<^verbatim>\<open>(n,)\<close>, the late accessor
  \<^verbatim>\<open>functools.partial(_getter, dest.gpu, x[2:])\<close>, the address it returns
  (\<^verbatim>\<open>getattr(dest_gpu, x).dev.data\<close>), and \<^verbatim>\<open>np.asarray(v, dtype=dtype)\<close>, kept as
  the value together with the requested dtype (the rounding is not modelled).
\<close>

datatype 'r pyval =
    Queue obj
  | PyNone
  | Tuple1 nat
  | Partial_getter obj string
  | DevData addr
  | Ndarray 'r dtype

text \<open>
  A Python dictionary keeps its keys in insertion order; assigning to a key that is
  present keeps the key's place (\<^const>\<open>AList.update\<close>). A dictionary is an association
  list with distinct keys.
\<close>

type_synonym ('k, 'v) dict = "('k \<times> 'v) list"

definition keys :: "('k, 'v) dict \<Rightarrow> 'k list" where
  "keys d = map fst d"

definition getitem :: "('k, 'v) dict \<Rightarrow> 'k \<Rightarrow> ('k \<Rightarrow> py_error) \<Rightarrow> py_error + 'v" where
  "getitem d k err = (case map_of d k of None \<Rightarrow> Inl (err k) | Some v \<Rightarrow> Inr v)"

text \<open>
  \<^verbatim>\<open>defaultdict(dict)\<close>: reading a missing key stores an empty dictionary under it and
  returns that. Both the value and the updated table are returned.
\<close>

definition dd_getitem ::
  "('k, ('a, 'b) dict) dict \<Rightarrow> 'k \<Rightarrow> ('a, 'b) dict \<times> ('k, ('a, 'b) dict) dict" where
  "dd_getitem d k = (case map_of d k of Some v \<Rightarrow> (v, d) | None \<Rightarrow> ([], d @ [(k, [])]))"

text \<open>\<^verbatim>\<open>d[k][a] = b\<close> on a \<^verbatim>\<open>defaultdict(dict)\<close>.\<close>

definition dd_setitem ::
  "('k, ('a, 'b) dict) dict \<Rightarrow> 'k \<Rightarrow> 'a \<Rightarrow> 'b \<Rightarrow> ('k, ('a, 'b) dict) dict" where
  "dd_setitem d k a b = (case dd_getitem d k of (inner, d1) \<Rightarrow> AList.update k (AList.update a b inner) d1)"

text \<open>\<^verbatim>\<open>xs[i] = v\<close> on a list raises \<^verbatim>\<open>IndexError\<close> out of range.\<close>

definition list_setitem :: "'a list \<Rightarrow> nat \<Rightarrow> 'a \<Rightarrow> py_error + 'a list" where
  "list_setitem xs i v = (if i < length xs then Inr (xs[i := v]) else Inl IndexError)"

text \<open>\<^verbatim>\<open>sep.join(xs)\<close>.\<close>

fun join :: "string \<Rightarrow> string list \<Rightarrow> string" where
  "join sep [] = []"
| "join sep [x] = x"
| "join sep (x # y # ys) = x @ sep @ join sep (y # ys)"

definition newline :: string where
  "newline = [CHR 0x0A]"

section \<open>The collaborators\<close>

text \<open>
  Everything the runtime calls outside the module is recorded as an event, in call
  order. Reads of the particle count and of a buffer address carry the value read.
\<close>

datatype 'r event =
    PyMethCalled py_method obj "'r pyval list"
  | CountRead obj nat
  | BufferRead obj string addr
  | KernelLaunched string "'r pyval list"
  | ManagerUpdated obj
  | NnpsUpdated obj
  | AccelComputed obj 'r 'r
  | CallbackCalled obj 'r 'r int

text \<open>
  The state of the collaborators is a value of type \<open>'w\<close>. The environment says what a
  read returns in a given state and how each call changes it:
  \<^verbatim>\<open>dest.get_number_of_particles(real=True)\<close>, \<^verbatim>\<open>dest.gpu\<close>,
  \<^verbatim>\<open>getattr(dest_gpu, x).dev.data\<close>, and the effect of a host hook, a kernel, an update,
  an acceleration evaluation or a callback. The calls are taken to return; an exception
  raised inside a collaborator is not modelled.
\<close>

record ('w, 'r) env =
  get_number_of_particles :: "obj \<Rightarrow> 'w \<Rightarrow> nat"
  gpu :: "obj \<Rightarrow> 'w \<Rightarrow> obj"
  dev_data :: "obj \<Rightarrow> string \<Rightarrow> 'w \<Rightarrow> addr"
  effect :: "'r event \<Rightarrow> 'w \<Rightarrow> 'w"

text \<open>
  What \<^verbatim>\<open>IntegratorOpenCLHelper\<close> takes from its parent class
  \<^verbatim>\<open>IntegratorCythonHelper\<close>, from the acceleration-evaluation helper, from the
  translator and from the configuration. None of these is in the module; they are
  parameters.
\<close>

record collab =
  get_stepper_method_wrapper_names :: "string list"
  has_stepper_loop :: "string \<Rightarrow> string \<Rightarrow> bool"
  get_args :: "string \<Rightarrow> string \<Rightarrow> string list"
  get_array_names :: "string list \<Rightarrow> string list \<times> string list"
  get_typed_args :: "string list \<Rightarrow> string list"
  get_kernel_definition :: "string \<Rightarrow> string list \<Rightarrow> string"
  wrap_code :: "string \<Rightarrow> string list"
  parse_instance :: "stepper \<Rightarrow> string"
  array_map :: "(string, obj) dict"
  queue :: obj
  config_use_double :: bool

section \<open>The timestep procedure\<close>

text \<open>
  Modelled from the spec: the body of the integrator's \<^verbatim>\<open>one_timestep(self, t, dt)\<close>,
  which \<^verbatim>\<open>_setup_methods\<close> compiles with \<^verbatim>\<open>exec\<close> and binds to the runtime. The
  integrator classes are not in the module. Following the spec's TimestepProgram, the body
  is a sequence of calls on \<^verbatim>\<open>self\<close>: \<^verbatim>\<open>self.<name>()\<close> for a stage,
  \<^verbatim>\<open>self.compute_accelerations()\<close>, and \<^verbatim>\<open>self.do_post_stage(e, k)\<close> where \<open>e\<close> is
  an expression in \<open>t\<close> and \<open>dt\<close>.
\<close>

datatype 'r stmt =
    Call_method string
  | Compute_accelerations
  | Do_post_stage "'r \<Rightarrow> 'r \<Rightarrow> 'r" int

section \<open>The helper and the runtime objects\<close>

record 'r integrator_obj =
  steppers :: "(string, stepper) dict"
  one_timestep_body :: "'r stmt list"

text \<open>
  \<^verbatim>\<open>IntegratorOpenCLHelper\<close>: \<open>object\<close> is the integrator, \<open>program\<close> the compiled
  module (the names of its kernels) once it is set.
\<close>

record 'r helper =
  object :: "'r integrator_obj option"
  py_data :: "(string, (string, string) dict) dict"
  data :: "(string, (string, string \<times> string list) dict) dict"
  py_calls :: "(string, (obj, py_method \<times> obj) dict) dict"
  calls :: "(string, (obj, string \<times> 'r pyval list \<times> obj) dict) dict"
  program :: "string list option"

text \<open>
  \<^verbatim>\<open>OpenCLIntegrator\<close>. The attributes \<^verbatim>\<open>t\<close>, \<^verbatim>\<open>dt\<close> and \<^verbatim>\<open>orig_t\<close> do not exist
  until \<^verbatim>\<open>step\<close> sets them (\<open>None\<close> here). \<open>methods\<close> are the attribute names that
  \<^verbatim>\<open>_setup_methods\<close> binds to \<^verbatim>\<open>_do_stage\<close>. The helper is the object the runtime
  shares with the code generator; \<open>world\<close> is the state of the collaborators and
  \<open>trace\<close> the calls made on them so far.
\<close>

record ('w, 'r) opencl_integrator =
  helper :: "'r helper"
  acceleration_eval :: obj
  nnps :: "obj option"
  parallel_manager :: "obj option"
  post_stage_callback :: "obj option"
  use_double :: bool
  one_timestep :: "'r stmt list"
  methods :: "string list"
  self_t :: "'r option"
  self_dt :: "'r option"
  self_orig_t :: "'r option"
  world :: 'w
  trace :: "'r event list"

section \<open>The staged runtime\<close>

definition external_call ::
  "('w, 'r) env \<Rightarrow> 'r event \<Rightarrow> ('w, 'r) opencl_integrator \<Rightarrow> ('w, 'r) opencl_integrator" where
  "external_call env e s = s\<lparr>world := effect env e (world s), trace := trace s @ [e]\<rparr>"

definition observe ::
  "'r event \<Rightarrow> ('w, 'r) opencl_integrator \<Rightarrow> ('w, 'r) opencl_integrator" where
  "observe e s = s\<lparr>trace := trace s @ [e]\<rparr>"

text \<open>The first loop of \<^verbatim>\<open>_do_stage\<close>: \<^verbatim>\<open>py_meth(dest, *extra_args)\<close> for each item.\<close>

fun call_py_meths ::
  "('w, 'r) env \<Rightarrow> 'r pyval list \<Rightarrow> (obj \<times> py_method \<times> obj) list \<Rightarrow>
   ('w, 'r) opencl_integrator \<Rightarrow> ('w, 'r) opencl_integrator" where
  "call_py_meths env extra_args [] s = s"
| "call_py_meths env extra_args ((name, py_meth, dest) # items) s =
     call_py_meths env extra_args items (external_call env (PyMethCalled py_meth dest extra_args) s)"

text \<open>\<^verbatim>\<open>x()\<close> for one stored argument: only the late accessor is callable.\<close>

fun call_arg ::
  "('w, 'r) env \<Rightarrow> 'r pyval \<Rightarrow> ('w, 'r) opencl_integrator \<Rightarrow>
   py_error + ('r pyval \<times> ('w, 'r) opencl_integrator)" where
  "call_arg env (Partial_getter dest_gpu x) s =
     (let a = dev_data env dest_gpu x (world s)
      in Inr (DevData a, observe (BufferRead dest_gpu x a) s))"
| "call_arg env _ s = Inl (TypeError ''object is not callable'')"

text \<open>\<^verbatim>\<open>[x() for x in args[3:]]\<close>.\<close>

fun call_args ::
  "('w, 'r) env \<Rightarrow> 'r pyval list \<Rightarrow> ('w, 'r) opencl_integrator \<Rightarrow>
   py_error + ('r pyval list \<times> ('w, 'r) opencl_integrator)" where
  "call_args env [] s = Inr ([], s)"
| "call_args env (x # xs) s =
     (case call_arg env x s of
        Inl e \<Rightarrow> Inl e
      | Inr (v, s1) \<Rightarrow>
          (case call_args env xs s1 of
             Inl e \<Rightarrow> Inl e
           | Inr (vs, s2) \<Rightarrow> Inr (v # vs, s2)))"

text \<open>
  \<^verbatim>\<open>args[1] = (n,)\<close> assigns into the list that the call table holds for this stage and
  destination, so the table changes.
\<close>

definition store_args ::
  "string \<Rightarrow> obj \<Rightarrow> string \<times> 'r pyval list \<times> obj \<Rightarrow>
   ('w, 'r) opencl_integrator \<Rightarrow> ('w, 'r) opencl_integrator" where
  "store_args method name item s =
     s\<lparr>helper := (helper s)\<lparr>calls := dd_setitem (calls (helper s)) method name item\<rparr>\<rparr>"

text \<open>The body of the second loop of \<^verbatim>\<open>_do_stage\<close>.\<close>

definition call_kernel ::
  "('w, 'r) env \<Rightarrow> string \<Rightarrow> 'r pyval list \<Rightarrow> obj \<times> string \<times> 'r pyval list \<times> obj \<Rightarrow>
   ('w, 'r) opencl_integrator \<Rightarrow> py_error + ('w, 'r) opencl_integrator" where
  "call_kernel env method extra_args item s =
     (case item of (name, call, args, dest) \<Rightarrow>
        let n = get_number_of_particles env dest (world s);
            s1 = observe (CountRead dest n) s
        in (case list_setitem args 1 (Tuple1 n) of
              Inl e \<Rightarrow> Inl e
            | Inr args1 \<Rightarrow>
                (case call_args env (drop 3 args1) (store_args method name (call, args1, dest) s1) of
                   Inl e \<Rightarrow> Inl e
                 | Inr (rest, s3) \<Rightarrow>
                     Inr (external_call env (KernelLaunched call (take 3 args1 @ rest @ extra_args)) s3))))"

fun call_kernels ::
  "('w, 'r) env \<Rightarrow> string \<Rightarrow> 'r pyval list \<Rightarrow> (obj \<times> string \<times> 'r pyval list \<times> obj) list \<Rightarrow>
   ('w, 'r) opencl_integrator \<Rightarrow> py_error + ('w, 'r) opencl_integrator" where
  "call_kernels env method extra_args [] s = Inr s"
| "call_kernels env method extra_args (item # items) s =
     (case call_kernel env method extra_args item s of
        Inl e \<Rightarrow> Inl e
      | Inr s1 \<Rightarrow> call_kernels env method extra_args items s1)"

text \<open>
  \<^verbatim>\<open>_do_stage(self, method)\<close>. The two tables are \<^verbatim>\<open>defaultdict\<close>s, so a stage that is
  in neither gives two empty dictionaries. \<^verbatim>\<open>self.t\<close> and \<^verbatim>\<open>self.dt\<close> are read after
  the tables.
\<close>

definition do_stage ::
  "('w, 'r) env \<Rightarrow> string \<Rightarrow> ('w, 'r) opencl_integrator \<Rightarrow> py_error + ('w, 'r) opencl_integrator" where
  "do_stage env method s =
     (case dd_getitem (calls (helper s)) method of (call_info, calls1) \<Rightarrow>
     (case dd_getitem (py_calls (helper s)) (''py_'' @ method) of (py_call_info, py_calls1) \<Rightarrow>
        let s0 = s\<lparr>helper := (helper s)\<lparr>py_calls := py_calls1, calls := calls1\<rparr>\<rparr>;
            dtype = (if use_double s then Float64 else Float32)
        in (case self_t s of
              None \<Rightarrow> Inl (AttributeError ''t'')
            | Some tv \<Rightarrow>
                (case self_dt s of
                   None \<Rightarrow> Inl (AttributeError ''dt'')
                 | Some dtv \<Rightarrow>
                     let extra_args = [Ndarray tv dtype, Ndarray dtv dtype]
                     in call_kernels env method extra_args call_info
                          (call_py_meths env extra_args py_call_info s0)))))"

definition set_nnps :: "obj \<Rightarrow> ('w, 'r) opencl_integrator \<Rightarrow> ('w, 'r) opencl_integrator" where
  "set_nnps n s = s\<lparr>nnps := Some n\<rparr>"

definition set_parallel_manager ::
  "obj \<Rightarrow> ('w, 'r) opencl_integrator \<Rightarrow> ('w, 'r) opencl_integrator" where
  "set_parallel_manager pm s = s\<lparr>parallel_manager := Some pm\<rparr>"

definition set_post_stage_callback ::
  "obj \<Rightarrow> ('w, 'r) opencl_integrator \<Rightarrow> ('w, 'r) opencl_integrator" where
  "set_post_stage_callback callback s = s\<lparr>post_stage_callback := Some callback\<rparr>"

text \<open>
  \<^verbatim>\<open>compute_accelerations(self)\<close>. The parallel manager is updated when one is set;
  \<^verbatim>\<open>self.nnps.update()\<close> raises when no neighbour search was set.
\<close>

definition compute_accelerations ::
  "('w, 'r) env \<Rightarrow> ('w, 'r) opencl_integrator \<Rightarrow> py_error + ('w, 'r) opencl_integrator" where
  "compute_accelerations env s =
     (let s1 = (case parallel_manager s of
                  None \<Rightarrow> s
                | Some pm \<Rightarrow> external_call env (ManagerUpdated pm) s)
      in case nnps s1 of
           None \<Rightarrow> Inl (AttributeError ''update'')
         | Some n \<Rightarrow>
             let s2 = external_call env (NnpsUpdated n) s1
             in (case self_t s2 of
                   None \<Rightarrow> Inl (AttributeError ''t'')
                 | Some tv \<Rightarrow>
                     (case self_dt s2 of
                        None \<Rightarrow> Inl (AttributeError ''dt'')
                      | Some dtv \<Rightarrow>
                          Inr (external_call env (AccelComputed (acceleration_eval s2) tv dtv) s2))))"

text \<open>\<^verbatim>\<open>do_post_stage(self, stage_dt, stage)\<close>.\<close>

definition do_post_stage ::
  "('w, 'r::plus) env \<Rightarrow> 'r \<Rightarrow> int \<Rightarrow> ('w, 'r) opencl_integrator \<Rightarrow>
   py_error + ('w, 'r) opencl_integrator" where
  "do_post_stage env stage_dt stage s =
     (case self_orig_t s of
        None \<Rightarrow> Inl (AttributeError ''orig_t'')
      | Some ot \<Rightarrow>
          let s1 = s\<lparr>self_t := Some (ot + stage_dt)\<rparr>
          in (case post_stage_callback s1 of
                None \<Rightarrow> Inr s1
              | Some callback \<Rightarrow>
                  (case self_dt s1 of
                     None \<Rightarrow> Inl (AttributeError ''dt'')
                   | Some dtv \<Rightarrow>
                       Inr (external_call env (CallbackCalled callback (ot + stage_dt) dtv stage) s1))))"

text \<open>
  One statement of the timestep procedure. A stage name that \<^verbatim>\<open>_setup_methods\<close> did
  not bind is a missing attribute of the runtime.
\<close>

fun exec_stmt ::
  "('w, 'r::plus) env \<Rightarrow> 'r \<Rightarrow> 'r \<Rightarrow> 'r stmt \<Rightarrow> ('w, 'r) opencl_integrator \<Rightarrow>
   py_error + ('w, 'r) opencl_integrator" where
  "exec_stmt env t0 dt0 (Call_method name) s =
     (if name \<in> set (methods s) then do_stage env name s else Inl (AttributeError name))"
| "exec_stmt env t0 dt0 Compute_accelerations s = compute_accelerations env s"
| "exec_stmt env t0 dt0 (Do_post_stage e stage) s = do_post_stage env (e t0 dt0) stage s"

fun exec_stmts ::
  "('w, 'r::plus) env \<Rightarrow> 'r \<Rightarrow> 'r \<Rightarrow> 'r stmt list \<Rightarrow> ('w, 'r) opencl_integrator \<Rightarrow>
   py_error + ('w, 'r) opencl_integrator" where
  "exec_stmts env t0 dt0 [] s = Inr s"
| "exec_stmts env t0 dt0 (c # cs) s =
     (case exec_stmt env t0 dt0 c s of
        Inl e \<Rightarrow> Inl e
      | Inr s1 \<Rightarrow> exec_stmts env t0 dt0 cs s1)"

text \<open>\<^verbatim>\<open>step(self, t, dt)\<close>.\<close>

definition step ::
  "('w, 'r::plus) env \<Rightarrow> 'r \<Rightarrow> 'r \<Rightarrow> ('w, 'r) opencl_integrator \<Rightarrow>
   py_error + ('w, 'r) opencl_integrator" where
  "step env t0 dt0 s =
     exec_stmts env t0 dt0 (one_timestep s)
       (s\<lparr>self_orig_t := Some t0, self_t := Some t0, self_dt := Some dt0\<rparr>)"

section \<open>Code generation\<close>

text \<open>
  \<^verbatim>\<open>IntegratorOpenCLHelper.__init__\<close>: four empty \<^verbatim>\<open>defaultdict(dict)\<close> tables and no
  program.
\<close>

definition helper_init :: "'r integrator_obj option \<Rightarrow> 'r helper" where
  "helper_init integrator =
     \<lparr>object = integrator, py_data = [], data = [], py_calls = [], calls = [], program = None\<rparr>"

text \<open>\<^verbatim>\<open>get_py_stage_code(self, dest, method)\<close>.\<close>

definition get_py_stage_code :: "string \<Rightarrow> string \<Rightarrow> 'r helper \<Rightarrow> py_error + 'r helper" where
  "get_py_stage_code dest method h =
     (case object h of
        None \<Rightarrow> Inl (AttributeError ''steppers'')
      | Some ob \<Rightarrow>
          (case getitem (steppers ob) dest KeyError of
             Inl e \<Rightarrow> Inl e
           | Inr stepper \<Rightarrow>
               let method1 = ''py_'' @ method
               in if method1 \<in> set (attrs stepper)
                  then Inr (h\<lparr>py_data := dd_setitem (py_data h) method1 dest dest\<rparr>)
                  else Inr h))"

text \<open>\<^verbatim>\<open>get_timestep_code(self)\<close>: the source of the integrator's \<^verbatim>\<open>one_timestep\<close>.\<close>

definition get_timestep_code :: "'r helper \<Rightarrow> py_error + 'r stmt list" where
  "get_timestep_code h =
     (case object h of
        None \<Rightarrow> Inl (AttributeError ''one_timestep'')
      | Some ob \<Rightarrow> Inr (one_timestep_body ob))"

text \<open>
  \<^verbatim>\<open>get_stepper_code(self)\<close>. The dictionary \<^verbatim>\<open>classes\<close> keeps one stepper for each class
  name (the last one in the order of \<^verbatim>\<open>steppers\<close>); \<open>translated_instances\<close> are the
  steppers handed to \<^verbatim>\<open>parse_instance\<close>, in call order.
\<close>

fun collect_classes ::
  "(string \<times> stepper) list \<Rightarrow> (string, stepper) dict \<Rightarrow> (string, stepper) dict" where
  "collect_classes [] classes = classes"
| "collect_classes ((dest, stepper) # items) classes =
     collect_classes items (AList.update (cls_name stepper) stepper classes)"

fun lookup_all :: "(string, stepper) dict \<Rightarrow> string list \<Rightarrow> py_error + stepper list" where
  "lookup_all classes [] = Inr []"
| "lookup_all classes (cls # rest) =
     (case getitem classes cls KeyError of
        Inl e \<Rightarrow> Inl e
      | Inr stepper \<Rightarrow>
          (case lookup_all classes rest of
             Inl e \<Rightarrow> Inl e
           | Inr found \<Rightarrow> Inr (stepper # found)))"

definition translated_instances :: "'r helper \<Rightarrow> py_error + stepper list" where
  "translated_instances h =
     (case object h of
        None \<Rightarrow> Inl (AttributeError ''steppers'')
      | Some ob \<Rightarrow>
          let classes = collect_classes (steppers ob) []
          in lookup_all classes (sort (keys classes)))"

definition get_stepper_code :: "collab \<Rightarrow> 'r helper \<Rightarrow> py_error + string" where
  "get_stepper_code c h =
     (case translated_instances h of
        Inl e \<Rightarrow> Inl e
      | Inr instances \<Rightarrow> Inr (join newline (map (parse_instance c) instances)))"

text \<open>
  \<^verbatim>\<open>get_stepper_kernel(self, dest, method)\<close>. \<^verbatim>\<open>steppers.get(dest)\<close> gives \<^verbatim>\<open>None\<close>
  for a missing key, whose class name is \<^verbatim>\<open>NoneType\<close>. The body of the kernel is kept
  apart in \<open>kernel_body\<close>.
\<close>

definition kernel_args :: "collab \<Rightarrow> string \<Rightarrow> string \<Rightarrow> string list" where
  "kernel_args c dest method =
     (let args = get_args c dest method
      in if ''self'' \<in> set args then remove1 ''self'' args else args)"

definition kernel_body :: "collab \<Rightarrow> string \<Rightarrow> string \<Rightarrow> string list \<Rightarrow> string" where
  "kernel_body c cls method args =
     (let code = [''int d_idx = get_global_id(0);''] @
                 wrap_code c (cls @ ''_'' @ method @ ''('' @ join '', '' (''0'' # args) @ '');'')
      in join newline (map (\<lambda>x. replicate 4 (CHR '' '') @ x) code))"

definition get_stepper_kernel ::
  "collab \<Rightarrow> string \<Rightarrow> string \<Rightarrow> 'r helper \<Rightarrow> py_error + (string \<times> 'r helper)" where
  "get_stepper_kernel c dest method h =
     (case object h of
        None \<Rightarrow> Inl (AttributeError ''steppers'')
      | Some ob \<Rightarrow>
          let kern = method @ ''_'' @ dest;
              cls = (case map_of (steppers ob) dest of
                       None \<Rightarrow> ''NoneType''
                     | Some stepper \<Rightarrow> cls_name stepper);
              args = kernel_args c dest method
          in case get_array_names c args of (s, d) \<Rightarrow>
               let all_args = get_typed_args c (d @ [''t'', ''dt'']);
                   body = kernel_body c cls method args;
                   h1 = h\<lparr>data := dd_setitem (data h) method dest (kern, d)\<rparr>;
                   sig = get_kernel_definition c kern all_args
               in Inr (sig @ newline @ ''{'' @ newline @ body @ newline @ ''}'' @ newline, h1))"

text \<open>
  \<^verbatim>\<open>get_code(self)\<close>. The template first expands \<^verbatim>\<open>get_stepper_code()\<close>, then runs,
  for each destination in sorted order and each wrapper method, \<^verbatim>\<open>get_py_stage_code\<close>
  and, when the stepper has the loop, \<^verbatim>\<open>get_stepper_kernel\<close>. The result is the list of
  the pieces of text in the order the template emits them (the stepper code, then for each
  destination its heading and its kernels); the template's comment lines and blank lines
  are left out. Without an integrator the text is empty.
\<close>

fun get_code_methods ::
  "collab \<Rightarrow> string \<Rightarrow> string list \<Rightarrow> 'r helper \<Rightarrow> py_error + (string list \<times> 'r helper)" where
  "get_code_methods c dest [] h = Inr ([], h)"
| "get_code_methods c dest (method # rest) h =
     (case get_py_stage_code dest method h of
        Inl e \<Rightarrow> Inl e
      | Inr h1 \<Rightarrow>
          (case (if has_stepper_loop c dest method
                 then (case get_stepper_kernel c dest method h1 of
                         Inl e \<Rightarrow> Inl e
                       | Inr (k, h2) \<Rightarrow> Inr ([k], h2))
                 else Inr ([], h1)) of
             Inl e \<Rightarrow> Inl e
           | Inr (out1, h2) \<Rightarrow>
               (case get_code_methods c dest rest h2 of
                  Inl e \<Rightarrow> Inl e
                | Inr (out2, h3) \<Rightarrow> Inr (out1 @ out2, h3))))"

fun get_code_dests ::
  "collab \<Rightarrow> string list \<Rightarrow> 'r helper \<Rightarrow> py_error + (string list \<times> 'r helper)" where
  "get_code_dests c [] h = Inr ([], h)"
| "get_code_dests c (dest # rest) h =
     (case get_code_methods c dest (get_stepper_method_wrapper_names c) h of
        Inl e \<Rightarrow> Inl e
      | Inr (out1, h1) \<Rightarrow>
          (case get_code_dests c rest h1 of
             Inl e \<Rightarrow> Inl e
           | Inr (out2, h2) \<Rightarrow> Inr ((''// Steppers for '' @ dest) # out1 @ out2, h2)))"

definition get_code :: "collab \<Rightarrow> 'r helper \<Rightarrow> py_error + (string list \<times> 'r helper)" where
  "get_code c h =
     (case object h of
        None \<Rightarrow> Inr ([], h)
      | Some ob \<Rightarrow>
          (case get_stepper_code c h of
             Inl e \<Rightarrow> Inl e
           | Inr code \<Rightarrow>
               (case get_code_dests c (sort (keys (steppers ob))) h of
                  Inl e \<Rightarrow> Inl e
                | Inr (out, h1) \<Rightarrow> Inr (code # out, h1))))"

section \<open>Building the call tables\<close>

definition getattr_stepper :: "stepper \<Rightarrow> string \<Rightarrow> py_error + py_method" where
  "getattr_stepper stepper method =
     (if method \<in> set (attrs stepper) then Inr (Bound_method stepper method)
      else Inl (AttributeError method))"

text \<open>\<^verbatim>\<open>getattr(self.program, kernel)\<close>; the profiled kernel is known by its name.\<close>

definition getattr_program :: "string list option \<Rightarrow> string \<Rightarrow> py_error + string" where
  "getattr_program prog kern =
     (case prog of
        None \<Rightarrow> Inl (AttributeError kern)
      | Some names \<Rightarrow> if kern \<in> set names then Inr kern else Inl (AttributeError kern))"

text \<open>The first pair of loops of \<^verbatim>\<open>_setup_call_data\<close>, over \<^verbatim>\<open>py_data\<close>.\<close>

fun setup_py_dests ::
  "collab \<Rightarrow> (string, stepper) dict \<Rightarrow> string \<Rightarrow> string list \<Rightarrow> 'r helper \<Rightarrow>
   py_error + 'r helper" where
  "setup_py_dests c stp method [] h = Inr h"
| "setup_py_dests c stp method (dest_name # rest) h =
     (case getitem stp dest_name KeyError of
        Inl e \<Rightarrow> Inl e
      | Inr stepper \<Rightarrow>
          (case getattr_stepper stepper method of
             Inl e \<Rightarrow> Inl e
           | Inr py_meth \<Rightarrow>
               (case getitem (array_map c) dest_name KeyError of
                  Inl e \<Rightarrow> Inl e
                | Inr dest \<Rightarrow>
                    setup_py_dests c stp method rest
                      (h\<lparr>py_calls := dd_setitem (py_calls h) method dest (py_meth, dest)\<rparr>))))"

fun setup_py_methods ::
  "collab \<Rightarrow> (string, stepper) dict \<Rightarrow> (string \<times> (string, string) dict) list \<Rightarrow> 'r helper \<Rightarrow>
   py_error + 'r helper" where
  "setup_py_methods c stp [] h = Inr h"
| "setup_py_methods c stp ((method, info) # rest) h =
     (case setup_py_dests c stp method (keys info) h of
        Inl e \<Rightarrow> Inl e
      | Inr h1 \<Rightarrow> setup_py_methods c stp rest h1)"

text \<open>
  The second pair of loops, over \<^verbatim>\<open>data\<close>. The late accessor holds the device helper
  \<^verbatim>\<open>dest.gpu\<close>, read now, and the field name \<^verbatim>\<open>x[2:]\<close>; the address is not read here.
\<close>

fun setup_dests ::
  "('w, 'r) env \<Rightarrow> collab \<Rightarrow> 'w \<Rightarrow> string \<Rightarrow> (string \<times> string \<times> string list) list \<Rightarrow>
   'r helper \<Rightarrow> py_error + 'r helper" where
  "setup_dests env c w method [] h = Inr h"
| "setup_dests env c w method ((dest_name, kern, args) # rest) h =
     (case getitem (array_map c) dest_name KeyError of
        Inl e \<Rightarrow> Inl e
      | Inr dest \<Rightarrow>
          let args1 = map (\<lambda>x. Partial_getter (gpu env dest w) (drop 2 x)) args;
              all_args = [Queue (queue c), PyNone, PyNone] @ args1
          in (case getattr_program (program h) kern of
                Inl e \<Rightarrow> Inl e
              | Inr call \<Rightarrow>
                  setup_dests env c w method rest
                    (h\<lparr>calls := dd_setitem (calls h) method dest (call, all_args, dest)\<rparr>)))"

fun setup_methods_data ::
  "('w, 'r) env \<Rightarrow> collab \<Rightarrow> 'w \<Rightarrow> (string \<times> (string, string \<times> string list) dict) list \<Rightarrow>
   'r helper \<Rightarrow> py_error + 'r helper" where
  "setup_methods_data env c w [] h = Inr h"
| "setup_methods_data env c w ((method, info) # rest) h =
     (case setup_dests env c w method info h of
        Inl e \<Rightarrow> Inl e
      | Inr h1 \<Rightarrow> setup_methods_data env c w rest h1)"

text \<open>\<^verbatim>\<open>_setup_call_data(self)\<close>.\<close>

definition setup_call_data ::
  "('w, 'r) env \<Rightarrow> collab \<Rightarrow> 'w \<Rightarrow> 'r helper \<Rightarrow> py_error + 'r helper" where
  "setup_call_data env c w h =
     (case object h of
        None \<Rightarrow> Inl (AttributeError ''steppers'')
      | Some ob \<Rightarrow>
          (case setup_py_methods c (steppers ob) (py_data h) h of
             Inl e \<Rightarrow> Inl e
           | Inr h1 \<Rightarrow> setup_methods_data env c w (data h1) h1))"

text \<open>
  \<^verbatim>\<open>OpenCLIntegrator.__init__\<close> with \<^verbatim>\<open>_setup_methods\<close>: the timestep procedure is taken
  from the helper and every wrapper name becomes a method bound to \<^verbatim>\<open>_do_stage\<close>.
  \<^verbatim>\<open>t\<close>, \<^verbatim>\<open>dt\<close> and \<^verbatim>\<open>orig_t\<close> are not set.
\<close>

definition opencl_integrator_init ::
  "collab \<Rightarrow> 'r helper \<Rightarrow> obj \<Rightarrow> 'w \<Rightarrow> py_error + ('w, 'r) opencl_integrator" where
  "opencl_integrator_init c h c_acceleration_eval w =
     (case get_timestep_code h of
        Inl e \<Rightarrow> Inl e
      | Inr code \<Rightarrow>
          Inr \<lparr>helper = h, acceleration_eval = c_acceleration_eval, nnps = None,
               parallel_manager = None, post_stage_callback = None,
               use_double = config_use_double c, one_timestep = code,
               methods = get_stepper_method_wrapper_names c,
               self_t = None, self_dt = None, self_orig_t = None,
               world = w, trace = []\<rparr>)"

text \<open>\<^verbatim>\<open>setup_compiled_module(self, module, acceleration_eval)\<close>; the result is the runtime.\<close>

definition setup_compiled_module ::
  "('w, 'r) env \<Rightarrow> collab \<Rightarrow> string list \<Rightarrow> obj \<Rightarrow> 'w \<Rightarrow> 'r helper \<Rightarrow>
   py_error + ('w, 'r) opencl_integrator" where
  "setup_compiled_module env c module c_acceleration_eval w h =
     (case setup_call_data env c w (h\<lparr>program := Some module\<rparr>) of
        Inl e \<Rightarrow> Inl e
      | Inr h1 \<Rightarrow> opencl_integrator_init c h1 c_acceleration_eval w)"

section \<open>Describing a run\<close>

text \<open>
  \<^verbatim>\<open>self.helper.calls[method]\<close> and \<^verbatim>\<open>self.helper.py_calls['py_' + method]\<close> as
  \<^verbatim>\<open>_do_stage\<close> reads them: the entries of the stage, empty when the stage is not in the
  table.
\<close>

definition call_info_of :: "('w, 'r) opencl_integrator \<Rightarrow> string \<Rightarrow> (obj, string \<times> 'r pyval list \<times> obj) dict" where
  "call_info_of s method = fst (dd_getitem (calls (helper s)) method)"

definition py_call_info_of :: "('w, 'r) opencl_integrator \<Rightarrow> string \<Rightarrow> (obj, py_method \<times> obj) dict" where
  "py_call_info_of s method = fst (dd_getitem (py_calls (helper s)) (''py_'' @ method))"

text \<open>
  Reads do not change the collaborators; every other event is a call with an effect.
  \<open>replay\<close> gives the state of the collaborators after a sequence of events.
  \<open>fresh_reads\<close> says that every read in a sequence of events returned what the
  collaborators held at that point of the sequence, starting from the state \<open>w\<close>.
\<close>

fun is_read :: "'r event \<Rightarrow> bool" where
  "is_read (CountRead dest n) = True"
| "is_read (BufferRead g x a) = True"
| "is_read _ = False"

fun replay :: "('w, 'r) env \<Rightarrow> 'w \<Rightarrow> 'r event list \<Rightarrow> 'w" where
  "replay env w [] = w"
| "replay env w (e # es) = replay env (if is_read e then w else effect env e w) es"

fun fresh_reads :: "('w, 'r) env \<Rightarrow> 'w \<Rightarrow> 'r event list \<Rightarrow> bool" where
  "fresh_reads env w [] = True"
| "fresh_reads env w (CountRead dest n # es) =
     (n = get_number_of_particles env dest w \<and> fresh_reads env w es)"
| "fresh_reads env w (BufferRead g x a # es) =
     (a = dev_data env g x w \<and> fresh_reads env w es)"
| "fresh_reads env w (e # es) = fresh_reads env (effect env e w) es"

text \<open>
  \<open>same_attrs s s'\<close>: the two runtimes have the same attributes, the helper left aside
  (and the collaborators' state and the trace, which are not attributes).
\<close>

definition same_attrs :: "('w, 'r) opencl_integrator \<Rightarrow> ('w, 'r) opencl_integrator \<Rightarrow> bool" where
  "same_attrs s s' =
     (acceleration_eval s' = acceleration_eval s \<and> nnps s' = nnps s \<and>
      parallel_manager s' = parallel_manager s \<and> post_stage_callback s' = post_stage_callback s \<and>
      use_double s' = use_double s \<and> one_timestep s' = one_timestep s \<and> methods s' = methods s \<and>
      self_t s' = self_t s \<and> self_dt s' = self_dt s \<and> self_orig_t s' = self_orig_t s)"

text \<open>The hook calls of a stage: one call \<^verbatim>\<open>py_meth(dest, t, dt)\<close> for each entry, in order.\<close>

definition py_events :: "'r pyval list \<Rightarrow> (obj \<times> py_method \<times> obj) list \<Rightarrow> 'r event list" where
  "py_events extra_args items = map (\<lambda>(name, py_meth, dest). PyMethCalled py_meth dest extra_args) items"

text \<open>
  An argument list as \<^verbatim>\<open>_setup_call_data\<close> builds it, and as \<^verbatim>\<open>_do_stage\<close> leaves it:
  the queue, any value in the slot of the global size, \<^verbatim>\<open>None\<close>, then late accessors
  only.
\<close>

fun is_getter :: "'r pyval \<Rightarrow> bool" where
  "is_getter (Partial_getter g x) = True"
| "is_getter _ = False"

definition built_args :: "obj \<Rightarrow> 'r pyval list \<Rightarrow> bool" where
  "built_args q args =
     (3 \<le> length args \<and> args ! 0 = Queue q \<and> args ! 2 = PyNone \<and> list_all is_getter (drop 3 args))"

definition built_info :: "obj \<Rightarrow> (obj, string \<times> 'r pyval list \<times> obj) dict \<Rightarrow> bool" where
  "built_info q info = list_all (\<lambda>(name, call, args, dest). built_args q args) info"

text \<open>What the late accessors of an argument list return in the state \<open>w\<close>.\<close>

fun getter_reads :: "('w, 'r) env \<Rightarrow> 'w \<Rightarrow> 'r pyval list \<Rightarrow> (obj \<times> string \<times> addr) list" where
  "getter_reads env w [] = []"
| "getter_reads env w (Partial_getter g x # xs) = (g, x, dev_data env g x w) # getter_reads env w xs"
| "getter_reads env w (v # xs) = getter_reads env w xs"

text \<open>
  The events of one launch, for an entry of the call table: the read of the destination's
  count \<open>n\<close>, one buffer read for each late accessor of the entry, in order, and the
  launch of the entry's kernel with the queue, \<^verbatim>\<open>(n,)\<close>, \<^verbatim>\<open>None\<close>, the addresses
  read and the scalar arguments.
\<close>

definition launch_block ::
  "obj \<Rightarrow> 'r pyval list \<Rightarrow> obj \<times> string \<times> 'r pyval list \<times> obj \<Rightarrow> 'r event list \<Rightarrow> bool" where
  "launch_block q extra_args item block =
     (case item of (name, call, args, dest) \<Rightarrow>
        \<exists>n reads.
          drop 3 args = map (\<lambda>(g, x, a). Partial_getter g x) reads \<and>
          block = CountRead dest n # map (\<lambda>(g, x, a). BufferRead g x a) reads @
                  [KernelLaunched call
                     ([Queue q, Tuple1 n, PyNone] @ map (\<lambda>(g, x, a). DevData a) reads @ extra_args)])"

text \<open>The events of the launch for an entry, when the collaborators are in the state \<open>w\<close>.\<close>

definition launch_events ::
  "('w, 'r) env \<Rightarrow> obj \<Rightarrow> 'r pyval list \<Rightarrow> 'w \<Rightarrow> obj \<times> string \<times> 'r pyval list \<times> obj \<Rightarrow> 'r event list" where
  "launch_events env q extra_args w item =
     (case item of (name, call, args, dest) \<Rightarrow>
        let n = get_number_of_particles env dest w;
            reads = getter_reads env w (drop 3 args)
        in CountRead dest n # map (\<lambda>(g, x, a). BufferRead g x a) reads @
           [KernelLaunched call
              ([Queue q, Tuple1 n, PyNone] @ map (\<lambda>(g, x, a). DevData a) reads @ extra_args)])"

text \<open>The active precision: \<^verbatim>\<open>np.float64 if self._use_double else np.float32\<close>.\<close>

definition stage_dtype :: "('w, 'r) opencl_integrator \<Rightarrow> dtype" where
  "stage_dtype s = (if use_double s then Float64 else Float32)"

text \<open>The events a stage execution can add: hook calls, reads and kernel launches.\<close>

fun is_stage_event :: "'r event \<Rightarrow> bool" where
  "is_stage_event (PyMethCalled py_meth dest extra_args) = True"
| "is_stage_event (CountRead dest n) = True"
| "is_stage_event (BufferRead g x a) = True"
| "is_stage_event (KernelLaunched call args) = True"
| "is_stage_event _ = False"

definition same_helper_but_calls :: "'r helper \<Rightarrow> 'r helper \<Rightarrow> bool" where
  "same_helper_but_calls h h' =
     (object h' = object h \<and> py_data h' = py_data h \<and> data h' = data h \<and>
      py_calls h' = py_calls h \<and> program h' = program h)"

text \<open>The entries of a stage with the slot of the global size blanked.\<close>

definition forget_count ::
  "(obj, string \<times> 'r pyval list \<times> obj) dict \<Rightarrow> (obj, string \<times> 'r pyval list \<times> obj) dict" where
  "forget_count info = map (\<lambda>(name, call, args, dest). (name, call, list_update args 1 PyNone, dest)) info"

text \<open>\<open>same_config s s'\<close>: the same attributes but for \<^verbatim>\<open>t\<close> and the helper.\<close>

definition same_config :: "('w, 'r) opencl_integrator \<Rightarrow> ('w, 'r) opencl_integrator \<Rightarrow> bool" where
  "same_config s s' =
     (acceleration_eval s' = acceleration_eval s \<and> nnps s' = nnps s \<and>
      parallel_manager s' = parallel_manager s \<and> post_stage_callback s' = post_stage_callback s \<and>
      use_double s' = use_double s \<and> one_timestep s' = one_timestep s \<and> methods s' = methods s \<and>
      self_dt s' = self_dt s \<and> self_orig_t s' = self_orig_t s)"

text \<open>Every argument list of the call table has the form that setup builds.\<close>

definition built_calls ::
  "obj \<Rightarrow> (string, (obj, string \<times> 'r pyval list \<times> obj) dict) dict \<Rightarrow> bool" where
  "built_calls q tbl = list_all (\<lambda>(method, info). built_info q info) tbl"

text \<open>
  \<open>fresh_counts\<close>: every count read in a sequence of events returned the count the
  destination had at that point; \<open>fresh_buffers\<close>: every buffer read returned the address
  the field of the device helper had at that point.
\<close>

fun fresh_counts :: "('w, 'r) env \<Rightarrow> 'w \<Rightarrow> 'r event list \<Rightarrow> bool" where
  "fresh_counts env w [] = True"
| "fresh_counts env w (CountRead dest n # es) =
     (n = get_number_of_particles env dest w \<and> fresh_counts env w es)"
| "fresh_counts env w (e # es) = fresh_counts env (replay env w [e]) es"

fun fresh_buffers :: "('w, 'r) env \<Rightarrow> 'w \<Rightarrow> 'r event list \<Rightarrow> bool" where
  "fresh_buffers env w [] = True"
| "fresh_buffers env w (BufferRead g x a # es) =
     (a = dev_data env g x w \<and> fresh_buffers env w es)"
| "fresh_buffers env w (e # es) = fresh_buffers env (replay env w [e]) es"

text \<open>The kernels launched in a sequence of events, in order.\<close>

fun launched_kernels :: "'r event list \<Rightarrow> string list" where
  "launched_kernels [] = []"
| "launched_kernels (KernelLaunched call args # es) = call # launched_kernels es"
| "launched_kernels (e # es) = launched_kernels es"

text \<open>The text \<^verbatim>\<open>get_stepper_kernel\<close> returns, from the signature and the body.\<close>

definition kernel_text :: "string \<Rightarrow> string \<Rightarrow> string" where
  "kernel_text sig body = sig @ newline @ ''{'' @ newline @ body @ newline @ ''}'' @ newline"

text \<open>
  The keys of an inner dictionary of a table, in order; \<open>ins\<close> is what an assignment
  does to the keys; \<open>has_py_stage\<close> is \<^verbatim>\<open>hasattr(steppers[dest], 'py_' + method)\<close>.
\<close>

definition dd_keys :: "('k, ('a, 'b) dict) dict \<Rightarrow> 'k \<Rightarrow> 'a list" where
  "dd_keys tbl k = keys (fst (dd_getitem tbl k))"

definition ins :: "'a \<Rightarrow> 'a list \<Rightarrow> 'a list" where
  "ins a ks = (if a \<in> set ks then ks else ks @ [a])"

definition has_py_stage :: "'r integrator_obj \<Rightarrow> string \<Rightarrow> string \<Rightarrow> bool" where
  "has_py_stage ob dest k =
     (case map_of (steppers ob) dest of None \<Rightarrow> False | Some stepper \<Rightarrow> k \<in> set (attrs stepper))"

definition same_helper_but_data :: "'r helper \<Rightarrow> 'r helper \<Rightarrow> bool" where
  "same_helper_but_data h h' =
     (object h' = object h \<and> py_calls h' = py_calls h \<and> calls h' = calls h \<and> program h' = program h)"

text \<open>
  The entries of the hook table and of the call table are stored under their own
  destination. \<open>registered c names arrays\<close>: the arrays are, one by one, those that
  \<^verbatim>\<open>_array_map\<close> holds under the names.
\<close>

definition py_keyed :: "(obj, py_method \<times> obj) dict \<Rightarrow> bool" where
  "py_keyed entries = list_all (\<lambda>(name, py_meth, dest). dest = name) entries"

definition call_keyed :: "(obj, string \<times> 'r pyval list \<times> obj) dict \<Rightarrow> bool" where
  "call_keyed entries = list_all (\<lambda>(name, call, args, dest). dest = name) entries"

definition registered :: "collab \<Rightarrow> string list \<Rightarrow> obj list \<Rightarrow> bool" where
  "registered c names arrays = list_all2 (\<lambda>d a. map_of (array_map c) d = Some a) names arrays"

text \<open>
  The destinations of the hook calls in a sequence of events, and the destinations whose
  count is read (each launch begins with the read of its destination's count), in order.
  \<open>tables_agree s0 s\<close>: the call tables of the two runtimes differ at most in the stored
  counts and their hook tables have the same entries. \<open>run_steps\<close> runs one step after
  the other.
\<close>

fun hook_dests :: "'r event list \<Rightarrow> obj list" where
  "hook_dests [] = []"
| "hook_dests (PyMethCalled py_meth dest extra_args # es) = dest # hook_dests es"
| "hook_dests (e # es) = hook_dests es"

fun launch_dests :: "'r event list \<Rightarrow> obj list" where
  "launch_dests [] = []"
| "launch_dests (CountRead dest n # es) = dest # launch_dests es"
| "launch_dests (e # es) = launch_dests es"

definition tables_agree :: "('w, 'r) opencl_integrator \<Rightarrow> ('w, 'r) opencl_integrator \<Rightarrow> bool" where
  "tables_agree s0 s =
     (\<forall>k. forget_count (call_info_of s k) = forget_count (call_info_of s0 k) \<and>
          fst (dd_getitem (py_calls (helper s)) k) = fst (dd_getitem (py_calls (helper s0)) k))"

fun run_steps ::
  "('w, 'r::plus) env \<Rightarrow> ('r \<times> 'r) list \<Rightarrow> ('w, 'r) opencl_integrator \<Rightarrow>
   py_error + ('w, 'r) opencl_integrator" where
  "run_steps env [] s = Inr s"
| "run_steps env ((t0, dt0) # rest) s =
     (case step env t0 dt0 s of
        Inl e \<Rightarrow> Inl e
      | Inr s1 \<Rightarrow> run_steps env rest s1)"

section \<open>An example\<close>

text \<open>
  Two destinations, \<^verbatim>\<open>fluid\<close> (array 1) and \<^verbatim>\<open>boundary\<close> (array 2), with steppers of
  one class; both have \<^verbatim>\<open>stage1\<close> and a hook \<^verbatim>\<open>py_stage1\<close>, only \<^verbatim>\<open>fluid\<close> has
  \<^verbatim>\<open>stage2\<close>, none has \<^verbatim>\<open>initialize\<close>. The state of the collaborators is a counter
  that every call increments; counts and buffer addresses depend on it, so they change
  with every call. \<open>ex_helper\<close> is the helper after code generation and setup,
  \<open>ex_fresh\<close> the runtime that setup returns, \<open>ex_running\<close> a runtime inside a step
  with a neighbour search, a parallel manager and a callback set.
\<close>

definition ex_env :: "(nat, int) env" where
  "ex_env = \<lparr>get_number_of_particles = (\<lambda>dest w. dest + w), gpu = (\<lambda>dest w. dest + 10),
     dev_data = (\<lambda>g x w. 100 * g + w), effect = (\<lambda>e w. Suc w)\<rparr>"

definition ex_collab :: collab where
  "ex_collab = \<lparr>get_stepper_method_wrapper_names = [''initialize'', ''stage1'', ''stage2''],
     has_stepper_loop = (\<lambda>dest method. (dest, method) \<in> set [(''fluid'', ''stage1''), (''fluid'', ''stage2''), (''boundary'', ''stage1'')]),
     get_args = (\<lambda>dest method. [''self'', ''d_idx'', ''d_x'', ''d_u'', ''dt'']),
     get_array_names = (\<lambda>args. ([], filter (\<lambda>x. take 2 x = ''d_'' \<and> x \<noteq> ''d_idx'') args)),
     get_typed_args = (\<lambda>args. args),
     get_kernel_definition = (\<lambda>k args. ''__kernel void '' @ k @ ''('' @ join '', '' args @ '')''),
     wrap_code = (\<lambda>code. [code]),
     parse_instance = (\<lambda>st. ''// '' @ cls_name st),
     array_map = [(''fluid'', 1), (''boundary'', 2)],
     queue = 7,
     config_use_double = False\<rparr>"

definition ex_integrator :: "int integrator_obj" where
  "ex_integrator = \<lparr>steppers = [(''fluid'', Stepper ''EulerStep'' [''stage1'', ''stage2'', ''py_stage1'']),
                                 (''boundary'', Stepper ''EulerStep'' [''stage1'', ''py_stage1''])],
     one_timestep_body = [Call_method ''initialize'', Call_method ''stage1'', Do_post_stage (\<lambda>t dt. dt) 1]\<rparr>"

definition ex_helper :: "int helper" where
  "ex_helper =
     \<lparr>object = Some ex_integrator,
      py_data = [(''py_stage1'', [(''boundary'', ''boundary''), (''fluid'', ''fluid'')])],
      data = [(''stage1'', [(''boundary'', ''stage1_boundary'', [''d_x'', ''d_u'']),
                            (''fluid'', ''stage1_fluid'', [''d_x'', ''d_u''])]),
              (''stage2'', [(''fluid'', ''stage2_fluid'', [''d_x'', ''d_u''])])],
      py_calls = [(''py_stage1'',
                   [(2, Bound_method (Stepper ''EulerStep'' [''stage1'', ''py_stage1'']) ''py_stage1'', 2),
                    (1, Bound_method (Stepper ''EulerStep'' [''stage1'', ''stage2'', ''py_stage1'']) ''py_stage1'', 1)])],
      calls = [(''stage1'',
                [(2, ''stage1_boundary'', [Queue 7, PyNone, PyNone, Partial_getter 12 ''x'', Partial_getter 12 ''u''], 2),
                 (1, ''stage1_fluid'', [Queue 7, PyNone, PyNone, Partial_getter 11 ''x'', Partial_getter 11 ''u''], 1)]),
               (''stage2'',
                [(1, ''stage2_fluid'', [Queue 7, PyNone, PyNone, Partial_getter 11 ''x'', Partial_getter 11 ''u''], 1)])],
      program = Some [''stage1_fluid'', ''stage2_fluid'', ''stage1_boundary'']\<rparr>"

definition ex_fresh :: "(nat, int) opencl_integrator" where
  "ex_fresh =
     \<lparr>helper = ex_helper, acceleration_eval = 9, nnps = None, parallel_manager = None,
      post_stage_callback = None, use_double = False,
      one_timestep = [Call_method ''initialize'', Call_method ''stage1'', Do_post_stage (\<lambda>t dt. dt) 1],
      methods = [''initialize'', ''stage1'', ''stage2''],
      self_t = None, self_dt = None, self_orig_t = None, world = 0, trace = []\<rparr>"

definition ex_running :: "(nat, int) opencl_integrator" where
  "ex_running =
     ex_fresh\<lparr>nnps := Some 5, parallel_manager := Some 4, post_stage_callback := Some 6,
              self_t := Some 10, self_dt := Some 2, self_orig_t := Some 10\<rparr>"

section \<open>Runs of a stage\<close>

lemma replay_append: "replay env w (es @ fs) = replay env (replay env w es) fs"
  by (induction es arbitrary: w) auto

lemma fresh_reads_append:
  "fresh_reads env w (es @ fs) = (fresh_reads env w es \<and> fresh_reads env (replay env w es) fs)"
proof (induction es arbitrary: w)
  case Nil
  then show ?case by simp
next
  case (Cons e es)
  then show ?case by (cases e) auto
qed

lemma external_call_fields [simp]:
  "helper (external_call env e s) = helper s"
  "acceleration_eval (external_call env e s) = acceleration_eval s"
  "nnps (external_call env e s) = nnps s"
  "parallel_manager (external_call env e s) = parallel_manager s"
  "post_stage_callback (external_call env e s) = post_stage_callback s"
  "use_double (external_call env e s) = use_double s"
  "one_timestep (external_call env e s) = one_timestep s"
  "methods (external_call env e s) = methods s"
  "self_t (external_call env e s) = self_t s"
  "self_dt (external_call env e s) = self_dt s"
  "self_orig_t (external_call env e s) = self_orig_t s"
  "world (external_call env e s) = effect env e (world s)"
  "trace (external_call env e s) = trace s @ [e]"
  by (simp_all add: external_call_def)

lemma observe_fields [simp]:
  "helper (observe e s) = helper s"
  "acceleration_eval (observe e s) = acceleration_eval s"
  "nnps (observe e s) = nnps s"
  "parallel_manager (observe e s) = parallel_manager s"
  "post_stage_callback (observe e s) = post_stage_callback s"
  "use_double (observe e s) = use_double s"
  "one_timestep (observe e s) = one_timestep s"
  "methods (observe e s) = methods s"
  "self_t (observe e s) = self_t s"
  "self_dt (observe e s) = self_dt s"
  "self_orig_t (observe e s) = self_orig_t s"
  "world (observe e s) = world s"
  "trace (observe e s) = trace s @ [e]"
  by (simp_all add: observe_def)

lemma store_args_fields [simp]:
  "acceleration_eval (store_args m name item s) = acceleration_eval s"
  "nnps (store_args m name item s) = nnps s"
  "parallel_manager (store_args m name item s) = parallel_manager s"
  "post_stage_callback (store_args m name item s) = post_stage_callback s"
  "use_double (store_args m name item s) = use_double s"
  "one_timestep (store_args m name item s) = one_timestep s"
  "methods (store_args m name item s) = methods s"
  "self_t (store_args m name item s) = self_t s"
  "self_dt (store_args m name item s) = self_dt s"
  "self_orig_t (store_args m name item s) = self_orig_t s"
  "world (store_args m name item s) = world s"
  "trace (store_args m name item s) = trace s"
  "object (helper (store_args m name item s)) = object (helper s)"
  "py_data (helper (store_args m name item s)) = py_data (helper s)"
  "data (helper (store_args m name item s)) = data (helper s)"
  "py_calls (helper (store_args m name item s)) = py_calls (helper s)"
  "program (helper (store_args m name item s)) = program (helper s)"
  "calls (helper (store_args m name item s)) = dd_setitem (calls (helper s)) m name item"
  by (simp_all add: store_args_def)

lemma same_attrs_refl [simp]: "same_attrs s s"
  by (simp add: same_attrs_def)

lemma same_attrs_trans: "same_attrs s s1 \<Longrightarrow> same_attrs s1 s2 \<Longrightarrow> same_attrs s s2"
  by (simp add: same_attrs_def)

lemma same_attrs_simps [simp]:
  "same_attrs s (external_call env e s1) = same_attrs s s1"
  "same_attrs s (observe e s1) = same_attrs s s1"
  "same_attrs s (store_args m name item s1) = same_attrs s s1"
  by (simp_all add: same_attrs_def)

lemma call_py_meths_run:
  "helper (call_py_meths env extra items s) = helper s \<and>
   same_attrs s (call_py_meths env extra items s) \<and>
   trace (call_py_meths env extra items s) = trace s @ py_events extra items \<and>
   world (call_py_meths env extra items s) = replay env (world s) (py_events extra items)"
proof (induction items arbitrary: s)
  case Nil
  then show ?case by (simp add: py_events_def)
next
  case (Cons item items)
  obtain name py_meth dest where item: "item = (name, py_meth, dest)"
    by (cases item) auto
  let ?s1 = "external_call env (PyMethCalled py_meth dest extra) s"
  have "same_attrs ?s1 (call_py_meths env extra items ?s1)"
    using Cons.IH by blast
  then have "same_attrs s (call_py_meths env extra items ?s1)"
    by (simp add: same_attrs_def)
  then show ?case
    using Cons.IH [of ?s1] by (simp add: item py_events_def)
qed

lemma fresh_reads_py_events: "fresh_reads env w (py_events extra items)"
  by (induction items arbitrary: w) (auto simp: py_events_def)

lemma getter_reads_map:
  "list_all is_getter xs \<Longrightarrow> map (\<lambda>(g, x, a). Partial_getter g x) (getter_reads env w xs) = xs"
proof (induction xs)
  case Nil
  then show ?case by simp
next
  case (Cons v xs)
  then show ?case by (cases v) auto
qed

lemma fresh_reads_getter_reads:
  "fresh_reads env w (map (\<lambda>(g, x, a). BufferRead g x a) (getter_reads env w xs) @ es) = fresh_reads env w es"
  by (induction env w xs rule: getter_reads.induct) auto

lemma replay_getter_reads:
  "replay env w (map (\<lambda>(g, x, a). BufferRead g x a) rs @ es) = replay env w es"
  by (induction rs) auto

lemma call_args_run:
  assumes "list_all is_getter xs"
  shows "\<exists>s'. call_args env xs s = Inr (map (\<lambda>(g, x, a). DevData a) (getter_reads env (world s) xs), s') \<and>
           helper s' = helper s \<and> same_attrs s s' \<and> world s' = world s \<and>
           trace s' = trace s @ map (\<lambda>(g, x, a). BufferRead g x a) (getter_reads env (world s) xs)"
  using assms
proof (induction xs arbitrary: s)
  case Nil
  then show ?case by simp
next
  case (Cons v xs)
  from Cons.prems obtain g x where v: "v = Partial_getter g x" and xs: "list_all is_getter xs"
    by (cases v) auto
  let ?a = "dev_data env g x (world s)"
  let ?s1 = "observe (BufferRead g x ?a) s"
  from Cons.IH [OF xs, of ?s1] obtain s' where
    run: "call_args env xs ?s1 = Inr (map (\<lambda>(g, x, a). DevData a) (getter_reads env (world s) xs), s')"
    and h: "helper s' = helper s" and a: "same_attrs ?s1 s'" and w: "world s' = world s"
    and t: "trace s' = trace s @ [BufferRead g x ?a] @ map (\<lambda>(g, x, a). BufferRead g x a) (getter_reads env (world s) xs)"
    by auto
  from a have "same_attrs s s'" by (simp add: same_attrs_def)
  with run h w t show ?case
    by (simp add: v Let_def)
qed

lemma launch_block_events:
  "built_args q args \<Longrightarrow>
   launch_block q extra (name, call, args, dest) (launch_events env q extra w (name, call, args, dest))"
  unfolding launch_block_def launch_events_def built_args_def
  by (auto simp: Let_def getter_reads_map
      intro!: exI [of _ "get_number_of_particles env dest w"] exI [of _ "getter_reads env w (drop 3 args)"])

lemma fresh_reads_launch_events:
  "fresh_reads env w (launch_events env q extra w (name, call, args, dest))"
  by (simp add: launch_events_def Let_def fresh_reads_getter_reads)

lemma take3_built:
  "built_args q args \<Longrightarrow> take 3 (args[1 := v]) = [Queue q, v, PyNone]"
proof -
  assume b: "built_args q args"
  then obtain a0 a1 a2 rest where args: "args = a0 # a1 # a2 # rest"
    unfolding built_args_def by (cases args; cases "tl args"; cases "tl (tl args)") auto
  with b show ?thesis by (simp add: built_args_def)
qed

lemma call_kernel_run:
  assumes "built_args q args"
  shows "\<exists>s'. call_kernel env m extra (name, call, args, dest) s = Inr s' \<and>
           same_attrs s s' \<and>
           helper s' = (helper s)\<lparr>calls := dd_setitem (calls (helper s)) m name
               (call, args[1 := Tuple1 (get_number_of_particles env dest (world s))], dest)\<rparr> \<and>
           trace s' = trace s @ launch_events env q extra (world s) (name, call, args, dest) \<and>
           world s' = replay env (world s) (launch_events env q extra (world s) (name, call, args, dest))"
proof -
  let ?n = "get_number_of_particles env dest (world s)"
  let ?args1 = "args[1 := Tuple1 ?n]"
  let ?s2 = "store_args m name (call, ?args1, dest) (observe (CountRead dest ?n) s)"
  from assms have len: "1 < length args" and getters: "list_all is_getter (drop 3 ?args1)"
    by (simp_all add: built_args_def drop_update_cancel)
  from call_args_run [OF getters, of env ?s2] obtain s3 where
    run: "call_args env (drop 3 ?args1) ?s2 =
            Inr (map (\<lambda>(g, x, a). DevData a) (getter_reads env (world s) (drop 3 ?args1)), s3)"
    and h: "helper s3 = helper ?s2" and a: "same_attrs ?s2 s3" and w: "world s3 = world s"
    and t: "trace s3 = trace s @ [CountRead dest ?n] @
              map (\<lambda>(g, x, a). BufferRead g x a) (getter_reads env (world s) (drop 3 ?args1))"
    by auto
  from a have a': "same_attrs s s3" by (simp add: same_attrs_def)
  have d: "drop 3 ?args1 = drop 3 args" by (simp add: drop_update_cancel)
  have hs: "helper ?s2 = (helper s)\<lparr>calls := dd_setitem (calls (helper s)) m name (call, ?args1, dest)\<rparr>"
    by (simp add: store_args_def observe_def)
  show ?thesis
    using run h a' w t len hs take3_built [OF assms, of "Tuple1 ?n"]
    by (simp add: call_kernel_def list_setitem_def Let_def d launch_events_def replay_getter_reads)
qed

lemma call_kernels_run:
  assumes "built_info q items"
  shows "\<exists>s' blocks. call_kernels env m extra items s = Inr s' \<and>
           same_attrs s s' \<and>
           trace s' = trace s @ concat blocks \<and>
           list_all2 (launch_block q extra) items blocks \<and>
           fresh_reads env (world s) (concat blocks) \<and>
           world s' = replay env (world s) (concat blocks)"
  using assms
proof (induction items arbitrary: s)
  case Nil
  then show ?case by simp
next
  case (Cons item items)
  obtain name call args dest where item: "item = (name, call, args, dest)"
    by (cases item) auto
  from Cons.prems have b: "built_args q args" and rest: "built_info q items"
    by (simp_all add: built_info_def item)
  let ?block = "launch_events env q extra (world s) (name, call, args, dest)"
  from call_kernel_run [OF b, of env m extra name call dest s] obtain s1 where
    run1: "call_kernel env m extra (name, call, args, dest) s = Inr s1"
    and a1: "same_attrs s s1" and t1: "trace s1 = trace s @ ?block"
    and w1: "world s1 = replay env (world s) ?block"
    by blast
  from Cons.IH [OF rest, of s1] obtain s' blocks where
    run2: "call_kernels env m extra items s1 = Inr s'"
    and a2: "same_attrs s1 s'" and t2: "trace s' = trace s1 @ concat blocks"
    and l2: "list_all2 (launch_block q extra) items blocks"
    and f2: "fresh_reads env (world s1) (concat blocks)"
    and w2: "world s' = replay env (world s1) (concat blocks)"
    by blast
  have "call_kernels env m extra (item # items) s = Inr s'"
    using run1 run2 by (simp add: item)
  moreover have "same_attrs s s'"
    using a1 a2 by (rule same_attrs_trans)
  moreover have "trace s' = trace s @ concat (?block # blocks)"
    using t1 t2 by simp
  moreover have "list_all2 (launch_block q extra) (item # items) (?block # blocks)"
    using l2 launch_block_events [OF b] by (simp add: item)
  moreover have "fresh_reads env (world s) (concat (?block # blocks))"
    using f2 w1 fresh_reads_launch_events [of env "world s" q extra name call args dest]
    by (simp add: fresh_reads_append)
  moreover have "world s' = replay env (world s) (concat (?block # blocks))"
    using w1 w2 by (simp add: replay_append)
  ultimately show ?case by blast
qed

lemma do_stage_run:
  assumes "self_t s = Some tv" and "self_dt s = Some dtv"
    and "built_info q (call_info_of s m)"
    and "extra = [Ndarray tv (stage_dtype s), Ndarray dtv (stage_dtype s)]"
  shows "\<exists>s' blocks. do_stage env m s = Inr s' \<and>
           same_attrs s s' \<and>
           trace s' = trace s @ py_events extra (py_call_info_of s m) @ concat blocks \<and>
           list_all2 (launch_block q extra) (call_info_of s m) blocks \<and>
           fresh_reads env (world s) (py_events extra (py_call_info_of s m) @ concat blocks) \<and>
           world s' = replay env (world s) (py_events extra (py_call_info_of s m) @ concat blocks)"
proof -
  obtain call_info calls1 where c: "dd_getitem (calls (helper s)) m = (call_info, calls1)"
    by (cases "dd_getitem (calls (helper s)) m") auto
  obtain py_call_info py_calls1 where
    p: "dd_getitem (py_calls (helper s)) (''py_'' @ m) = (py_call_info, py_calls1)"
    by (cases "dd_getitem (py_calls (helper s)) (''py_'' @ m)") auto
  have ci: "call_info_of s m = call_info" and pi: "py_call_info_of s m = py_call_info"
    using c p by (simp_all add: call_info_of_def py_call_info_of_def)
  let ?s0 = "s\<lparr>helper := (helper s)\<lparr>py_calls := py_calls1, calls := calls1\<rparr>\<rparr>"
  let ?s1 = "call_py_meths env extra py_call_info ?s0"
  have s1: "same_attrs ?s0 ?s1" "trace ?s1 = trace s @ py_events extra py_call_info"
    "world ?s1 = replay env (world s) (py_events extra py_call_info)"
    using call_py_meths_run [of env extra py_call_info ?s0] by simp_all
  from s1(1) have a1: "same_attrs s ?s1" by (simp add: same_attrs_def)
  from assms(3) have "built_info q call_info" by (simp add: ci)
  from call_kernels_run [OF this, of env m extra ?s1] obtain s' blocks where
    run: "call_kernels env m extra call_info ?s1 = Inr s'"
    and a2: "same_attrs ?s1 s'" and t2: "trace s' = trace ?s1 @ concat blocks"
    and l2: "list_all2 (launch_block q extra) call_info blocks"
    and f2: "fresh_reads env (world ?s1) (concat blocks)"
    and w2: "world s' = replay env (world ?s1) (concat blocks)"
    by blast
  have "do_stage env m s = Inr s'"
    using run assms(1,2,4) c p by (simp add: do_stage_def Let_def stage_dtype_def)
  moreover have "same_attrs s s'"
    using a1 a2 by (rule same_attrs_trans)
  moreover have "trace s' = trace s @ py_events extra py_call_info @ concat blocks"
    using t2 s1(2) by simp
  moreover have "fresh_reads env (world s) (py_events extra py_call_info @ concat blocks)"
    using f2 s1(3) by (simp add: fresh_reads_append fresh_reads_py_events)
  moreover have "world s' = replay env (world s) (py_events extra py_call_info @ concat blocks)"
    using w2 s1(3) by (simp add: replay_append)
  ultimately show ?thesis
    using l2 by (auto simp: ci pi)
qed

lemma dd_getitem_setitem:
  "fst (dd_getitem (dd_setitem d k a b) k') =
     (if k' = k then AList.update a b (fst (dd_getitem d k)) else fst (dd_getitem d k'))"
  by (auto simp: dd_setitem_def dd_getitem_def update_conv' split: option.splits)

lemma forget_count_update:
  "map_of (forget_count info) name = Some (call, list_update args 1 PyNone, dest) \<Longrightarrow>
   forget_count (AList.update name (call, list_update args 1 v, dest) info) = forget_count info"
  by (induction info) (auto simp: forget_count_def)

lemma call_args_frame:
  "call_args env xs s = Inr (vs, s') \<Longrightarrow>
   helper s' = helper s \<and> same_attrs s s' \<and> world s' = world s \<and>
   (\<exists>new. trace s' = trace s @ new \<and> list_all is_stage_event new)"
proof (induction xs arbitrary: s vs s')
  case Nil
  then show ?case by simp
next
  case (Cons v xs)
  from Cons.prems obtain g x where v: "v = Partial_getter g x"
    by (cases v) auto
  let ?s1 = "observe (BufferRead g x (dev_data env g x (world s))) s"
  from Cons.prems obtain vs1 where run: "call_args env xs ?s1 = Inr (vs1, s')"
    by (auto simp: v Let_def split: sum.splits)
  from Cons.IH [OF run] obtain new where
    "helper s' = helper s" "same_attrs ?s1 s'" "world s' = world s"
    "trace s' = trace ?s1 @ new" "list_all is_stage_event new"
    by auto
  then show ?case
    by (auto simp: same_attrs_def intro!: exI [of _ "BufferRead g x (dev_data env g x (world s)) # new"])
qed

lemma call_kernel_frame:
  assumes "call_kernel env m extra (name, call, args, dest) s = Inr s'"
  shows "same_attrs s s' \<and>
         (\<exists>v. helper s' = (helper s)\<lparr>calls := dd_setitem (calls (helper s)) m name
                  (call, list_update args 1 v, dest)\<rparr>) \<and>
         (\<exists>new. trace s' = trace s @ new \<and> list_all is_stage_event new)"
proof -
  let ?n = "get_number_of_particles env dest (world s)"
  let ?args1 = "list_update args 1 (Tuple1 ?n)"
  let ?s2 = "store_args m name (call, ?args1, dest) (observe (CountRead dest ?n) s)"
  from assms obtain rest s3 where
    run: "call_args env (drop 3 ?args1) ?s2 = Inr (rest, s3)"
    and s': "s' = external_call env (KernelLaunched call (take 3 ?args1 @ rest @ extra)) s3"
    by (auto simp: call_kernel_def list_setitem_def Let_def split: if_splits sum.splits)
  from call_args_frame [OF run] obtain new where
    h: "helper s3 = helper ?s2" and a: "same_attrs ?s2 s3"
    and t: "trace s3 = trace ?s2 @ new" and l: "list_all is_stage_event new"
    by auto
  have "same_attrs s s'"
    using a by (simp add: s' same_attrs_def)
  moreover have "helper s' = (helper s)\<lparr>calls := dd_setitem (calls (helper s)) m name (call, ?args1, dest)\<rparr>"
    using h by (simp add: s' store_args_def observe_def)
  moreover have "trace s' = trace s @ (CountRead dest ?n # new @ [KernelLaunched call (take 3 ?args1 @ rest @ extra)])"
    using t by (simp add: s')
  moreover have "list_all is_stage_event (CountRead dest ?n # new @ [KernelLaunched call (take 3 ?args1 @ rest @ extra)])"
    using l by simp
  ultimately show ?thesis by blast
qed

lemma call_kernels_frame:
  assumes "call_kernels env m extra items s = Inr s'"
  shows "same_attrs s s' \<and> same_helper_but_calls (helper s) (helper s') \<and>
         (\<exists>new. trace s' = trace s @ new \<and> list_all is_stage_event new)"
  using assms
proof (induction items arbitrary: s)
  case Nil
  then show ?case by (simp add: same_helper_but_calls_def)
next
  case (Cons item items)
  obtain name call args dest where item: "item = (name, call, args, dest)"
    by (cases item) auto
  from Cons.prems obtain s1 where
    run1: "call_kernel env m extra (name, call, args, dest) s = Inr s1"
    and run2: "call_kernels env m extra items s1 = Inr s'"
    by (auto simp: item split: sum.splits)
  from call_kernel_frame [OF run1] obtain v new1 where
    a1: "same_attrs s s1"
    and h1: "helper s1 = (helper s)\<lparr>calls := dd_setitem (calls (helper s)) m name (call, list_update args 1 v, dest)\<rparr>"
    and t1: "trace s1 = trace s @ new1" and l1: "list_all is_stage_event new1"
    by blast
  from Cons.IH [OF run2] obtain new2 where
    a2: "same_attrs s1 s'" and h2: "same_helper_but_calls (helper s1) (helper s')"
    and t2: "trace s' = trace s1 @ new2" and l2: "list_all is_stage_event new2"
    by blast
  have "same_attrs s s'" using a1 a2 by (rule same_attrs_trans)
  moreover have "same_helper_but_calls (helper s) (helper s')"
    using h1 h2 by (simp add: same_helper_but_calls_def)
  moreover have "trace s' = trace s @ (new1 @ new2)" using t1 t2 by simp
  moreover have "list_all is_stage_event (new1 @ new2)" using l1 l2 by simp
  ultimately show ?case by blast
qed

lemma call_kernels_table:
  assumes "call_kernels env m extra items s = Inr s'"
    and "\<forall>(name, call, args, dest) \<in> set items.
           map_of (forget_count (call_info_of s m)) name = Some (call, list_update args 1 PyNone, dest)"
  shows "forget_count (call_info_of s' m') = forget_count (call_info_of s m')"
  using assms
proof (induction items arbitrary: s)
  case Nil
  then show ?case by simp
next
  case (Cons item items)
  obtain name call args dest where item: "item = (name, call, args, dest)"
    by (cases item) auto
  from Cons.prems(1) obtain s1 where
    run1: "call_kernel env m extra (name, call, args, dest) s = Inr s1"
    and run2: "call_kernels env m extra items s1 = Inr s'"
    by (auto simp: item split: sum.splits)
  from call_kernel_frame [OF run1] obtain v where
    h1: "helper s1 = (helper s)\<lparr>calls := dd_setitem (calls (helper s)) m name (call, list_update args 1 v, dest)\<rparr>"
    by blast
  from Cons.prems(2) have here:
    "map_of (forget_count (call_info_of s m)) name = Some (call, list_update args 1 PyNone, dest)"
    by (simp add: item)
  have same: "forget_count (call_info_of s1 k) = forget_count (call_info_of s k)" for k
    using forget_count_update [OF here, of v]
    by (simp add: call_info_of_def h1 dd_getitem_setitem)
  have "\<forall>(name, call, args, dest) \<in> set items.
           map_of (forget_count (call_info_of s1 m)) name = Some (call, list_update args 1 PyNone, dest)"
    using Cons.prems(2) by (simp add: same)
  from Cons.IH [OF run2 this] show ?case
    by (simp add: same)
qed

lemma map_of_forget_count:
  assumes "distinct (keys info)" and "(name, call, args, dest) \<in> set info"
  shows "map_of (forget_count info) name = Some (call, list_update args 1 PyNone, dest)"
proof -
  have "map fst (forget_count info) = keys info"
    by (induction info) (auto simp: forget_count_def keys_def)
  with assms(1) have "distinct (map fst (forget_count info))" by simp
  moreover have "(name, call, list_update args 1 PyNone, dest) \<in> set (forget_count info)"
    using assms(2) by (force simp: forget_count_def)
  ultimately show ?thesis by simp
qed

lemma dd_getitem_touch:
  "fst (dd_getitem (snd (dd_getitem d k)) k') = fst (dd_getitem d k')"
  by (auto simp: dd_getitem_def split: option.splits if_splits)

lemma do_stage_frame:
  assumes "do_stage env m s = Inr s'"
  shows "same_attrs s s' \<and>
         object (helper s') = object (helper s) \<and> py_data (helper s') = py_data (helper s) \<and>
         data (helper s') = data (helper s) \<and> program (helper s') = program (helper s) \<and>
         (\<forall>k. fst (dd_getitem (py_calls (helper s')) k) = fst (dd_getitem (py_calls (helper s)) k)) \<and>
         (\<exists>new. trace s' = trace s @ new \<and> list_all is_stage_event new)"
proof -
  obtain call_info calls1 where c: "dd_getitem (calls (helper s)) m = (call_info, calls1)"
    by (cases "dd_getitem (calls (helper s)) m") auto
  obtain py_call_info py_calls1 where
    p: "dd_getitem (py_calls (helper s)) (''py_'' @ m) = (py_call_info, py_calls1)"
    by (cases "dd_getitem (py_calls (helper s)) (''py_'' @ m)") auto
  from assms(1) have "\<exists>tv dtv. self_t s = Some tv \<and> self_dt s = Some dtv"
    unfolding do_stage_def c p by (auto simp: Let_def split: option.splits)
  then obtain tv dtv where tv: "self_t s = Some tv" and dtv: "self_dt s = Some dtv"
    by blast
  define extra where "extra = [Ndarray tv (stage_dtype s), Ndarray dtv (stage_dtype s)]"
  let ?s0 = "s\<lparr>helper := (helper s)\<lparr>py_calls := py_calls1, calls := calls1\<rparr>\<rparr>"
  let ?s1 = "call_py_meths env extra py_call_info ?s0"
  from assms(1) have run: "call_kernels env m extra call_info ?s1 = Inr s'"
    unfolding do_stage_def c p by (simp add: Let_def tv dtv extra_def stage_dtype_def)
  have s1: "helper ?s1 = helper ?s0" "same_attrs ?s0 ?s1"
    "trace ?s1 = trace s @ py_events extra py_call_info"
    using call_py_meths_run [of env extra py_call_info ?s0] by simp_all
  from call_kernels_frame [OF run] obtain new where
    a: "same_attrs ?s1 s'" and h: "same_helper_but_calls (helper ?s1) (helper s')"
    and t: "trace s' = trace ?s1 @ new" and l: "list_all is_stage_event new"
    by blast
  have "same_attrs s s'"
    using s1(2) a by (simp add: same_attrs_def)
  moreover have "py_calls (helper s') = py_calls1"
    using h s1(1) by (simp add: same_helper_but_calls_def)
  then have "fst (dd_getitem (py_calls (helper s')) k) = fst (dd_getitem (py_calls (helper s)) k)" for k
    using dd_getitem_touch [of "py_calls (helper s)" "''py_'' @ m" k] p by simp
  moreover have "trace s' = trace s @ (py_events extra py_call_info @ new)"
    using t s1(3) by simp
  moreover have "list_all is_stage_event (py_events extra py_call_info @ new)"
    using l by (auto simp: py_events_def list_all_iff)
  ultimately show ?thesis
    using h s1(1) by (auto simp: same_helper_but_calls_def simp del: append_assoc)
qed

lemma do_stage_table:
  assumes "do_stage env m s = Inr s'" and "distinct (keys (call_info_of s m))"
  shows "forget_count (call_info_of s' m') = forget_count (call_info_of s m')"
proof -
  obtain call_info calls1 where c: "dd_getitem (calls (helper s)) m = (call_info, calls1)"
    by (cases "dd_getitem (calls (helper s)) m") auto
  obtain py_call_info py_calls1 where
    p: "dd_getitem (py_calls (helper s)) (''py_'' @ m) = (py_call_info, py_calls1)"
    by (cases "dd_getitem (py_calls (helper s)) (''py_'' @ m)") auto
  from assms(1) have "\<exists>tv dtv. self_t s = Some tv \<and> self_dt s = Some dtv"
    unfolding do_stage_def c p by (auto simp: Let_def split: option.splits)
  then obtain tv dtv where tv: "self_t s = Some tv" and dtv: "self_dt s = Some dtv"
    by blast
  define extra where "extra = [Ndarray tv (stage_dtype s), Ndarray dtv (stage_dtype s)]"
  let ?s0 = "s\<lparr>helper := (helper s)\<lparr>py_calls := py_calls1, calls := calls1\<rparr>\<rparr>"
  let ?s1 = "call_py_meths env extra py_call_info ?s0"
  from assms(1) have run: "call_kernels env m extra call_info ?s1 = Inr s'"
    unfolding do_stage_def c p by (simp add: Let_def tv dtv extra_def stage_dtype_def)
  have h1: "helper ?s1 = helper ?s0"
    using call_py_meths_run [of env extra py_call_info ?s0] by simp
  have same: "call_info_of ?s1 k = call_info_of s k" for k
    using dd_getitem_touch [of "calls (helper s)" m k] c by (simp add: call_info_of_def h1)
  have ci: "call_info_of s m = call_info"
    using c by (simp add: call_info_of_def)
  have "\<forall>(name, call, args, dest) \<in> set call_info.
           map_of (forget_count (call_info_of ?s1 m)) name = Some (call, list_update args 1 PyNone, dest)"
    using map_of_forget_count [of call_info] assms(2) by (auto simp: same ci)
  from call_kernels_table [OF run this, of m'] show ?thesis
    by (simp add: same)
qed

lemma ex_get_code:
  "map_sum id snd (get_code ex_collab (helper_init (Some ex_integrator))) =
     Inr (ex_helper\<lparr>py_calls := [], calls := [], program := None\<rparr>)"
  by (simp add: get_code_def helper_init_def ex_integrator_def ex_collab_def ex_helper_def keys_def
      get_stepper_code_def translated_instances_def getitem_def get_py_stage_code_def
      get_stepper_kernel_def kernel_args_def dd_setitem_def dd_getitem_def Let_def)

lemma ex_setup:
  "setup_compiled_module ex_env ex_collab [''stage1_fluid'', ''stage2_fluid'', ''stage1_boundary''] 9 0
     (ex_helper\<lparr>py_calls := [], calls := [], program := None\<rparr>) = Inr ex_fresh"
  by (simp add: setup_compiled_module_def setup_call_data_def ex_helper_def ex_integrator_def
      ex_collab_def ex_env_def ex_fresh_def keys_def getitem_def getattr_stepper_def
      getattr_program_def dd_setitem_def dd_getitem_def opencl_integrator_init_def
      get_timestep_code_def Let_def)

lemma compute_accelerations_frame:
  "compute_accelerations env s = Inr s' \<Longrightarrow> helper s' = helper s \<and> same_attrs s s'"
  by (auto simp: compute_accelerations_def Let_def same_attrs_def split: option.splits)

lemma do_post_stage_frame_aux:
  "do_post_stage env stage_dt stage s = Inr s' \<Longrightarrow>
   s' = s\<lparr>self_t := self_t s', world := world s', trace := trace s'\<rparr>"
  by (auto simp: do_post_stage_def Let_def external_call_def split: option.splits)

text \<open>
  Claim C7. A call \<^verbatim>\<open>do_post_stage(stage_dt, stage)\<close> on a runtime whose \<^verbatim>\<open>orig_t\<close> and
  \<^verbatim>\<open>dt\<close> are set returns, leaves \<^verbatim>\<open>t = orig_t + stage_dt\<close>, and calls the registered
  post-stage callback exactly once, with the new \<^verbatim>\<open>t\<close>, \<^verbatim>\<open>dt\<close> and the stage index;
  without a callback it calls nothing.
\<close>

theorem do_post_stage_sets_t_then_calls_back:
  assumes "self_orig_t s = Some ot" and "self_dt s = Some dtv"
  shows "\<exists>s'. do_post_stage env stage_dt stage s = Inr s' \<and>
           self_t s' = Some (ot + stage_dt) \<and>
           trace s' = trace s @
             (case post_stage_callback s of
                None \<Rightarrow> []
              | Some callback \<Rightarrow> [CallbackCalled callback (ot + stage_dt) dtv stage]) \<and>
           world s' = replay env (world s) (drop (length (trace s)) (trace s'))"
  using assms by (auto simp: do_post_stage_def Let_def split: option.splits)

theorem do_post_stage_sets_t_then_calls_back_witness:
  "self_orig_t ex_running = Some 10 \<and> self_dt ex_running = Some 2 \<and>
   (\<exists>s'. do_post_stage ex_env 1 2 ex_running = Inr s' \<and>
      self_t s' = Some 11 \<and> trace s' = [CallbackCalled 6 11 2 2] \<and> world s' = 1)"
  using do_post_stage_sets_t_then_calls_back [of ex_running 10 2 ex_env 1 2]
  by (auto simp: ex_running_def ex_fresh_def ex_env_def)

text \<open>
  Claim C10. \<^verbatim>\<open>do_post_stage\<close> changes no attribute of the runtime other than \<^verbatim>\<open>t\<close>:
  \<^verbatim>\<open>dt\<close>, \<^verbatim>\<open>orig_t\<close> and the call and hook tables are as before (only the
  collaborators' state and the trace of calls can differ, through the callback). With
  \<^verbatim>\<open>orig_t\<close> set and no callback registered, the call sets \<^verbatim>\<open>t = orig_t + stage_dt\<close>,
  changes nothing else and returns without error.
\<close>

theorem do_post_stage_modifies_only_t:
  "(do_post_stage env stage_dt stage s = Inr s' \<longrightarrow>
      s' = s\<lparr>self_t := self_t s', world := world s', trace := trace s'\<rparr> \<and>
      self_dt s' = self_dt s \<and> self_orig_t s' = self_orig_t s \<and>
      calls (helper s') = calls (helper s) \<and> py_calls (helper s') = py_calls (helper s)) \<and>
   (self_orig_t s = Some ot \<and> post_stage_callback s = None \<longrightarrow>
      do_post_stage env stage_dt stage s = Inr (s\<lparr>self_t := Some (ot + stage_dt)\<rparr>))"
proof (intro conjI impI)
  assume run: "do_post_stage env stage_dt stage s = Inr s'"
  from do_post_stage_frame_aux [OF run]
  show "s' = s\<lparr>self_t := self_t s', world := world s', trace := trace s'\<rparr>" .
  from run show "self_dt s' = self_dt s" "self_orig_t s' = self_orig_t s"
    "calls (helper s') = calls (helper s)" "py_calls (helper s') = py_calls (helper s)"
    by (auto simp: do_post_stage_def Let_def split: option.splits)
next
  assume "self_orig_t s = Some ot \<and> post_stage_callback s = None"
  then show "do_post_stage env stage_dt stage s = Inr (s\<lparr>self_t := Some (ot + stage_dt)\<rparr>)"
    by (simp add: do_post_stage_def)
qed

theorem do_post_stage_modifies_only_t_witness:
  "do_post_stage ex_env 1 2 (ex_running\<lparr>post_stage_callback := None\<rparr>) =
     Inr (ex_running\<lparr>post_stage_callback := None, self_t := Some 11\<rparr>) \<and>
   self_dt (ex_running\<lparr>post_stage_callback := None, self_t := Some 11\<rparr>) = Some 2 \<and>
   self_orig_t (ex_running\<lparr>post_stage_callback := None, self_t := Some 11\<rparr>) = Some 10 \<and>
   calls (helper (ex_running\<lparr>post_stage_callback := None, self_t := Some 11\<rparr>)) = calls ex_helper"
  using do_post_stage_modifies_only_t
    [of ex_env 1 2 "ex_running\<lparr>post_stage_callback := None\<rparr>"
        "ex_running\<lparr>post_stage_callback := None, self_t := Some 11\<rparr>" 10]
  by (simp add: ex_running_def ex_fresh_def)

lemma same_attrs_config: "same_attrs s s' \<Longrightarrow> same_config s s'"
  by (simp add: same_attrs_def same_config_def)

lemma exec_stmt_config:
  assumes "exec_stmt env t0 dt0 c s = Inr s'"
  shows "same_config s s'"
proof (cases c)
  case (Call_method name)
  with assms have "do_stage env name s = Inr s'"
    by (simp split: if_splits)
  from do_stage_frame [OF this] show ?thesis
    by (simp add: same_attrs_config)
next
  case Compute_accelerations
  with assms compute_accelerations_frame [of env s s'] show ?thesis
    by (simp add: same_attrs_config)
next
  case (Do_post_stage e stage)
  with assms have "do_post_stage env (e t0 dt0) stage s = Inr s'"
    by simp
  then show ?thesis
    by (auto simp: do_post_stage_def Let_def same_config_def split: option.splits)
qed

lemma exec_stmts_config:
  "exec_stmts env t0 dt0 cs s = Inr s' \<Longrightarrow> same_config s s'"
proof (induction cs arbitrary: s)
  case Nil
  then show ?case by (simp add: same_config_def)
next
  case (Cons c cs)
  from Cons.prems obtain s1 where
    one: "exec_stmt env t0 dt0 c s = Inr s1" and rest: "exec_stmts env t0 dt0 cs s1 = Inr s'"
    by (auto split: sum.splits)
  from exec_stmt_config [OF one] Cons.IH [OF rest] show ?case
    by (simp add: same_config_def)
qed

lemma exec_stmts_append:
  "exec_stmts env t0 dt0 (p @ q) s =
     (case exec_stmts env t0 dt0 p s of
        Inl e \<Rightarrow> Inl e
      | Inr s1 \<Rightarrow> exec_stmts env t0 dt0 q s1)"
  by (induction p arbitrary: s) (auto split: sum.splits)

text \<open>
  Claim C6. \<^verbatim>\<open>step(t, dt)\<close> first stores \<^verbatim>\<open>orig_t = t\<close>, \<^verbatim>\<open>t = t\<close> and \<^verbatim>\<open>dt = dt\<close> and
  then runs the statements of the timestep procedure on that state, in order: the
  statements of any first part run before those of the rest, and an error stops the
  step. When the step returns, \<^verbatim>\<open>orig_t\<close> and \<^verbatim>\<open>dt\<close> still hold the arguments.
\<close>

theorem step_sets_context_then_runs:
  "step env t0 dt0 s =
     exec_stmts env t0 dt0 (one_timestep s)
       (s\<lparr>self_orig_t := Some t0, self_t := Some t0, self_dt := Some dt0\<rparr>) \<and>
   (one_timestep s = p @ q \<longrightarrow>
      step env t0 dt0 s =
        (case exec_stmts env t0 dt0 p (s\<lparr>self_orig_t := Some t0, self_t := Some t0, self_dt := Some dt0\<rparr>) of
           Inl e \<Rightarrow> Inl e
         | Inr s1 \<Rightarrow> exec_stmts env t0 dt0 q s1)) \<and>
   (step env t0 dt0 s = Inr s' \<longrightarrow> self_orig_t s' = Some t0 \<and> self_dt s' = Some dt0)"
proof (intro conjI impI)
  show "step env t0 dt0 s =
     exec_stmts env t0 dt0 (one_timestep s)
       (s\<lparr>self_orig_t := Some t0, self_t := Some t0, self_dt := Some dt0\<rparr>)"
    by (simp add: step_def)
next
  assume "one_timestep s = p @ q"
  then show "step env t0 dt0 s =
        (case exec_stmts env t0 dt0 p (s\<lparr>self_orig_t := Some t0, self_t := Some t0, self_dt := Some dt0\<rparr>) of
           Inl e \<Rightarrow> Inl e
         | Inr s1 \<Rightarrow> exec_stmts env t0 dt0 q s1)"
    by (simp add: step_def exec_stmts_append)
next
  assume "step env t0 dt0 s = Inr s'"
  then have "same_config (s\<lparr>self_orig_t := Some t0, self_t := Some t0, self_dt := Some dt0\<rparr>) s'"
    unfolding step_def by (rule exec_stmts_config)
  then show "self_orig_t s' = Some t0" "self_dt s' = Some dt0"
    by (simp_all add: same_config_def)
qed

lemma ex_step_trace:
  "map_sum id trace (step ex_env 0 1 ex_fresh) =
     Inr [PyMethCalled (Bound_method (Stepper ''EulerStep'' [''stage1'', ''py_stage1'']) ''py_stage1'') 2
            [Ndarray 0 Float32, Ndarray 1 Float32],
          PyMethCalled (Bound_method (Stepper ''EulerStep'' [''stage1'', ''stage2'', ''py_stage1'']) ''py_stage1'') 1
            [Ndarray 0 Float32, Ndarray 1 Float32],
          CountRead 2 4, BufferRead 12 ''x'' 1202, BufferRead 12 ''u'' 1202,
          KernelLaunched ''stage1_boundary''
            [Queue 7, Tuple1 4, PyNone, DevData 1202, DevData 1202, Ndarray 0 Float32, Ndarray 1 Float32],
          CountRead 1 4, BufferRead 11 ''x'' 1103, BufferRead 11 ''u'' 1103,
          KernelLaunched ''stage1_fluid''
            [Queue 7, Tuple1 4, PyNone, DevData 1103, DevData 1103, Ndarray 0 Float32, Ndarray 1 Float32]]"
  by (simp add: step_def ex_fresh_def ex_helper_def ex_env_def do_stage_def dd_getitem_def dd_setitem_def
      call_kernel_def list_setitem_def store_args_def observe_def external_call_def do_post_stage_def Let_def)

theorem step_sets_context_then_runs_witness:
  "one_timestep ex_fresh = [Call_method ''initialize''] @ [Call_method ''stage1'', Do_post_stage (\<lambda>t dt. dt) 1] \<and>
   (\<exists>s'. step ex_env 0 1 ex_fresh = Inr s' \<and> self_orig_t s' = Some 0 \<and> self_dt s' = Some 1)"
proof -
  have "\<exists>s'. step ex_env 0 1 ex_fresh = Inr s'"
    using ex_step_trace by (cases "step ex_env 0 1 ex_fresh") auto
  then obtain s' where run: "step ex_env 0 1 ex_fresh = Inr s'" ..
  have split: "one_timestep ex_fresh = [Call_method ''initialize''] @ [Call_method ''stage1'', Do_post_stage (\<lambda>t dt. dt) 1]"
    by (simp add: ex_fresh_def)
  from step_sets_context_then_runs
         [of ex_env 0 1 ex_fresh "[Call_method ''initialize'']"
             "[Call_method ''stage1'', Do_post_stage (\<lambda>t dt. dt) 1]" s']
       run
  have "self_orig_t s' = Some 0 \<and> self_dt s' = Some 1" by blast
  with run split show ?thesis by blast
qed

text \<open>
  Claim C8. With a neighbour search set and \<^verbatim>\<open>t\<close>, \<^verbatim>\<open>dt\<close> set,
  \<^verbatim>\<open>compute_accelerations\<close> returns and makes exactly these calls, in this order: the
  parallel manager's update when one is set, the neighbour search's update, and the
  acceleration evaluator with \<^verbatim>\<open>(t, dt)\<close>. A stage execution makes none of these three
  calls: what it adds to the trace are hook calls, count reads, buffer reads and kernel
  launches only.
\<close>

theorem compute_accelerations_updates_then_evaluates:
  "(nnps s = Some n \<and> self_t s = Some tv \<and> self_dt s = Some dtv \<longrightarrow>
      (\<exists>s1. compute_accelerations env s = Inr s1 \<and>
         trace s1 = trace s @
           (case parallel_manager s of None \<Rightarrow> [] | Some pm \<Rightarrow> [ManagerUpdated pm]) @
           [NnpsUpdated n, AccelComputed (acceleration_eval s) tv dtv])) \<and>
   (do_stage env method s = Inr s' \<longrightarrow>
      (\<exists>new. trace s' = trace s @ new \<and> list_all is_stage_event new \<and>
         (\<forall>pm n a x y. ManagerUpdated pm \<notin> set new \<and> NnpsUpdated n \<notin> set new \<and>
            AccelComputed a x y \<notin> set new)))"
proof (intro conjI impI)
  assume "nnps s = Some n \<and> self_t s = Some tv \<and> self_dt s = Some dtv"
  then show "\<exists>s1. compute_accelerations env s = Inr s1 \<and>
         trace s1 = trace s @
           (case parallel_manager s of None \<Rightarrow> [] | Some pm \<Rightarrow> [ManagerUpdated pm]) @
           [NnpsUpdated n, AccelComputed (acceleration_eval s) tv dtv]"
    by (auto simp: compute_accelerations_def Let_def split: option.splits)
next
  assume "do_stage env method s = Inr s'"
  from do_stage_frame [OF this] obtain new where
    t: "trace s' = trace s @ new" and l: "list_all is_stage_event new"
    by blast
  from l have "ManagerUpdated pm \<notin> set new \<and> NnpsUpdated n \<notin> set new \<and> AccelComputed a x y \<notin> set new"
    for pm n a x y
    by (auto simp: list_all_iff)
  with t l show "\<exists>new. trace s' = trace s @ new \<and> list_all is_stage_event new \<and>
         (\<forall>pm n a x y. ManagerUpdated pm \<notin> set new \<and> NnpsUpdated n \<notin> set new \<and>
            AccelComputed a x y \<notin> set new)"
    by blast
qed

lemma ex_stage2_runs: "\<exists>s'. do_stage ex_env ''stage2'' ex_running = Inr s'"
  by (simp add: ex_running_def ex_fresh_def ex_helper_def ex_env_def do_stage_def dd_getitem_def dd_setitem_def
      call_kernel_def list_setitem_def store_args_def observe_def external_call_def Let_def)

theorem compute_accelerations_updates_then_evaluates_witness:
  "nnps ex_running = Some 5 \<and> self_t ex_running = Some 10 \<and> self_dt ex_running = Some 2 \<and>
   (\<exists>s1. compute_accelerations ex_env ex_running = Inr s1 \<and>
      trace s1 = [ManagerUpdated 4, NnpsUpdated 5, AccelComputed 9 10 2]) \<and>
   (\<exists>s' new. do_stage ex_env ''stage2'' ex_running = Inr s' \<and> trace s' = new \<and>
      list_all is_stage_event new \<and> NnpsUpdated 5 \<notin> set new \<and> AccelComputed 9 10 2 \<notin> set new)"
proof -
  from ex_stage2_runs obtain s' where run: "do_stage ex_env ''stage2'' ex_running = Inr s'" ..
  have pre: "nnps ex_running = Some 5 \<and> self_t ex_running = Some 10 \<and> self_dt ex_running = Some 2"
    "parallel_manager ex_running = Some 4" "acceleration_eval ex_running = 9" "trace ex_running = []"
    by (simp_all add: ex_running_def ex_fresh_def)
  from compute_accelerations_updates_then_evaluates [of ex_running 5 10 2 ex_env "''stage2''" s'] run pre
  show ?thesis by auto
qed

lemma fresh_reads_counts: "fresh_reads env w es \<Longrightarrow> fresh_counts env w es"
proof (induction es arbitrary: w)
  case Nil
  then show ?case by simp
next
  case (Cons e es)
  then show ?case by (cases e) auto
qed

lemma fresh_reads_buffers: "fresh_reads env w es \<Longrightarrow> fresh_buffers env w es"
proof (induction es arbitrary: w)
  case Nil
  then show ?case by simp
next
  case (Cons e es)
  then show ?case by (cases e) auto
qed

lemma built_calls_lookup:
  "built_calls q tbl \<Longrightarrow> built_info q (fst (dd_getitem tbl m))"
proof -
  assume b: "built_calls q tbl"
  show ?thesis
  proof (cases "map_of tbl m")
    case None
    then show ?thesis by (simp add: dd_getitem_def built_info_def)
  next
    case (Some info)
    then have "(m, info) \<in> set tbl" by (rule map_of_SomeD)
    with b have "built_info q info"
      by (auto simp: built_calls_def list_all_iff)
    with Some show ?thesis by (simp add: dd_getitem_def)
  qed
qed

lemma built_info_update:
  "built_info q info \<Longrightarrow> built_args q args \<Longrightarrow>
   built_info q (AList.update name (call, args, dest) info)"
  by (induction info) (auto simp: built_info_def)

lemma built_calls_update:
  "built_calls q tbl \<Longrightarrow> built_info q info \<Longrightarrow> built_calls q (AList.update m info tbl)"
  by (induction tbl) (auto simp: built_calls_def)

lemma built_calls_setitem:
  assumes "built_calls q tbl" and "built_args q args"
  shows "built_calls q (dd_setitem tbl m name (call, args, dest))"
proof -
  have inner: "built_info q (AList.update name (call, args, dest) (fst (dd_getitem tbl m)))"
    using built_calls_lookup [OF assms(1)] assms(2) by (rule built_info_update)
  have touched: "built_calls q (snd (dd_getitem tbl m))"
    using assms(1) by (auto simp: dd_getitem_def built_calls_def built_info_def split: option.splits)
  show ?thesis
    using built_calls_update [OF touched inner, of m]
    by (cases "dd_getitem tbl m") (simp add: dd_setitem_def)
qed

lemma built_args_update1: "built_args q args \<Longrightarrow> built_args q (list_update args 1 v)"
  by (simp add: built_args_def drop_update_cancel)

lemma call_kernels_built:
  assumes "call_kernels env m extra items s = Inr s'"
    and "built_info q items" and "built_calls q (calls (helper s))"
  shows "built_calls q (calls (helper s'))"
  using assms
proof (induction items arbitrary: s)
  case Nil
  then show ?case by simp
next
  case (Cons item items)
  obtain name call args dest where item: "item = (name, call, args, dest)"
    by (cases item) auto
  from Cons.prems(1) obtain s1 where
    run1: "call_kernel env m extra (name, call, args, dest) s = Inr s1"
    and run2: "call_kernels env m extra items s1 = Inr s'"
    by (auto simp: item split: sum.splits)
  from Cons.prems(2) have b: "built_args q args" and rest: "built_info q items"
    by (simp_all add: built_info_def item)
  from call_kernel_frame [OF run1] obtain v where
    "calls (helper s1) = dd_setitem (calls (helper s)) m name (call, list_update args 1 v, dest)"
    by force
  then have "built_calls q (calls (helper s1))"
    using built_calls_setitem [OF Cons.prems(3) built_args_update1 [OF b]] by simp
  from Cons.IH [OF run2 rest this] show ?case .
qed

lemma do_stage_built:
  assumes "do_stage env m s = Inr s'" and "built_calls q (calls (helper s))"
  shows "built_calls q (calls (helper s'))"
proof -
  obtain call_info calls1 where c: "dd_getitem (calls (helper s)) m = (call_info, calls1)"
    by (cases "dd_getitem (calls (helper s)) m") auto
  obtain py_call_info py_calls1 where
    p: "dd_getitem (py_calls (helper s)) (''py_'' @ m) = (py_call_info, py_calls1)"
    by (cases "dd_getitem (py_calls (helper s)) (''py_'' @ m)") auto
  from assms(1) have "\<exists>tv dtv. self_t s = Some tv \<and> self_dt s = Some dtv"
    unfolding do_stage_def c p by (auto simp: Let_def split: option.splits)
  then obtain tv dtv where tv: "self_t s = Some tv" and dtv: "self_dt s = Some dtv"
    by blast
  define extra where "extra = [Ndarray tv (stage_dtype s), Ndarray dtv (stage_dtype s)]"
  let ?s0 = "s\<lparr>helper := (helper s)\<lparr>py_calls := py_calls1, calls := calls1\<rparr>\<rparr>"
  let ?s1 = "call_py_meths env extra py_call_info ?s0"
  from assms(1) have run: "call_kernels env m extra call_info ?s1 = Inr s'"
    unfolding do_stage_def c p by (simp add: Let_def tv dtv extra_def stage_dtype_def)
  have h1: "helper ?s1 = helper ?s0"
    using call_py_meths_run [of env extra py_call_info ?s0] by simp
  have info: "built_info q call_info"
    using built_calls_lookup [OF assms(2), of m] c by simp
  have "built_calls q calls1"
    using assms(2) c by (auto simp: dd_getitem_def built_calls_def built_info_def split: option.splits)
  then have "built_calls q (calls (helper ?s1))"
    by (simp add: h1)
  from call_kernels_built [OF run info this] show ?thesis .
qed

lemma built_args_setup:
  "built_args q ([Queue q, PyNone, PyNone] @ map (\<lambda>x. Partial_getter g (drop 2 x)) args)"
  by (simp add: built_args_def list_all_iff)

lemma setup_dests_built:
  assumes "setup_dests env c w method items h = Inr h'" and "built_calls (queue c) (calls h)"
  shows "built_calls (queue c) (calls h') \<and> same_helper_but_calls h h'"
  using assms
proof (induction items arbitrary: h)
  case Nil
  then show ?case by (simp add: same_helper_but_calls_def)
next
  case (Cons item items)
  obtain dest_name kern args where item: "item = (dest_name, kern, args)"
    by (cases item) auto
  from Cons.prems(1) obtain dest call where
    dest: "getitem (array_map c) dest_name KeyError = Inr dest"
    and call: "getattr_program (program h) kern = Inr call"
    by (auto simp: item Let_def split: sum.splits)
  let ?all_args = "[Queue (queue c), PyNone, PyNone] @ map (\<lambda>x. Partial_getter (gpu env dest w) (drop 2 x)) args"
  let ?h1 = "h\<lparr>calls := dd_setitem (calls h) method dest (call, ?all_args, dest)\<rparr>"
  from Cons.prems(1) have run: "setup_dests env c w method items ?h1 = Inr h'"
    by (simp add: item dest call Let_def)
  have "built_calls (queue c) (calls ?h1)"
    using built_calls_setitem [OF Cons.prems(2) built_args_setup] by simp
  from Cons.IH [OF run this] show ?case
    by (simp add: same_helper_but_calls_def)
qed

lemma setup_methods_data_built:
  assumes "setup_methods_data env c w items h = Inr h'" and "built_calls (queue c) (calls h)"
  shows "built_calls (queue c) (calls h') \<and> same_helper_but_calls h h'"
  using assms
proof (induction items arbitrary: h)
  case Nil
  then show ?case by (simp add: same_helper_but_calls_def)
next
  case (Cons item items)
  obtain meth entries where item: "item = (meth, entries)"
    by (cases item) auto
  from Cons.prems(1) obtain h1 where
    one: "setup_dests env c w meth entries h = Inr h1"
    and rest: "setup_methods_data env c w items h1 = Inr h'"
    by (auto simp: item split: sum.splits)
  from setup_dests_built [OF one Cons.prems(2)] have
    b1: "built_calls (queue c) (calls h1)" and s1: "same_helper_but_calls h h1"
    by simp_all
  from Cons.IH [OF rest b1] s1 show ?case
    by (simp add: same_helper_but_calls_def)
qed

lemma setup_py_dests_calls:
  "setup_py_dests c stp method dests h = Inr h' \<Longrightarrow>
   calls h' = calls h \<and> object h' = object h \<and> py_data h' = py_data h \<and> data h' = data h \<and>
   program h' = program h"
proof (induction dests arbitrary: h)
  case Nil
  then show ?case by simp
next
  case (Cons dest_name dests)
  from Cons.prems obtain h1 where
    "setup_py_dests c stp method dests h1 = Inr h'"
    "calls h1 = calls h \<and> object h1 = object h \<and> py_data h1 = py_data h \<and> data h1 = data h \<and>
     program h1 = program h"
    by (auto split: sum.splits)
  with Cons.IH [of h1] show ?case by simp
qed

lemma setup_py_methods_calls:
  "setup_py_methods c stp items h = Inr h' \<Longrightarrow>
   calls h' = calls h \<and> object h' = object h \<and> py_data h' = py_data h \<and> data h' = data h \<and>
   program h' = program h"
proof (induction items arbitrary: h)
  case Nil
  then show ?case by simp
next
  case (Cons item items)
  obtain meth entries where item: "item = (meth, entries)"
    by (cases item) auto
  from Cons.prems obtain h1 where
    one: "setup_py_dests c stp meth (keys entries) h = Inr h1"
    and rest: "setup_py_methods c stp items h1 = Inr h'"
    by (auto simp: item split: sum.splits)
  from setup_py_dests_calls [OF one] Cons.IH [OF rest] show ?case by simp
qed

lemma setup_call_data_built:
  assumes "setup_call_data env c w h = Inr h'" and "built_calls (queue c) (calls h)"
  shows "built_calls (queue c) (calls h')"
proof -
  from assms(1) obtain ob h1 where
    "object h = Some ob"
    and py: "setup_py_methods c (steppers ob) (py_data h) h = Inr h1"
    and da: "setup_methods_data env c w (data h1) h1 = Inr h'"
    by (auto simp: setup_call_data_def split: option.splits sum.splits)
  from setup_py_methods_calls [OF py] assms(2) have "built_calls (queue c) (calls h1)"
    by simp
  from setup_methods_data_built [OF da this] show ?thesis by simp
qed

lemma setup_compiled_module_built:
  assumes "setup_compiled_module env c module acc w h = Inr s" and "calls h = []"
  shows "built_calls (queue c) (calls (helper s))"
proof -
  from assms(1) obtain h1 where
    sc: "setup_call_data env c w (h\<lparr>program := Some module\<rparr>) = Inr h1"
    and init: "opencl_integrator_init c h1 acc w = Inr s"
    by (auto simp: setup_compiled_module_def split: sum.splits)
  have "built_calls (queue c) (calls (h\<lparr>program := Some module\<rparr>))"
    using assms(2) by (simp add: built_calls_def)
  from setup_call_data_built [OF sc this] have "built_calls (queue c) (calls h1)" .
  moreover from init have "helper s = h1"
    by (auto simp: opencl_integrator_init_def split: sum.splits)
  ultimately show ?thesis by simp
qed

lemma ex_running_built: "built_calls 7 (calls (helper ex_running))"
  by (simp add: ex_running_def ex_fresh_def ex_helper_def built_calls_def built_info_def built_args_def)

lemma ex_stage1_trace:
  "map_sum id trace (do_stage ex_env ''stage1'' ex_running) =
     Inr [PyMethCalled (Bound_method (Stepper ''EulerStep'' [''stage1'', ''py_stage1'']) ''py_stage1'') 2
            [Ndarray 10 Float32, Ndarray 2 Float32],
          PyMethCalled (Bound_method (Stepper ''EulerStep'' [''stage1'', ''stage2'', ''py_stage1'']) ''py_stage1'') 1
            [Ndarray 10 Float32, Ndarray 2 Float32],
          CountRead 2 4, BufferRead 12 ''x'' 1202, BufferRead 12 ''u'' 1202,
          KernelLaunched ''stage1_boundary''
            [Queue 7, Tuple1 4, PyNone, DevData 1202, DevData 1202, Ndarray 10 Float32, Ndarray 2 Float32],
          CountRead 1 4, BufferRead 11 ''x'' 1103, BufferRead 11 ''u'' 1103,
          KernelLaunched ''stage1_fluid''
            [Queue 7, Tuple1 4, PyNone, DevData 1103, DevData 1103, Ndarray 10 Float32, Ndarray 2 Float32]]"
  by (simp add: ex_running_def ex_fresh_def ex_helper_def ex_env_def do_stage_def dd_getitem_def dd_setitem_def
      call_kernel_def list_setitem_def store_args_def observe_def external_call_def Let_def)

text \<open>
  Claim C1, as stated, fails. In the example runtime the stage \<^verbatim>\<open>stage1\<close> has a hook and a
  kernel for each of the two destinations. The hook of the second destination runs before
  the count of the first is read, and each kernel is launched with seven positional
  arguments: the queue, the tuple of the count, \<^verbatim>\<open>None\<close>, the two buffers, \<^verbatim>\<open>t\<close> and
  \<^verbatim>\<open>dt\<close>. The launch with the five kinds of argument the claim lists, and no \<^verbatim>\<open>None\<close>,
  does not occur.
\<close>

theorem do_stage_launch_arguments_counterexample:
  "map_sum id trace (do_stage ex_env ''stage1'' ex_running) =
     Inr [PyMethCalled (Bound_method (Stepper ''EulerStep'' [''stage1'', ''py_stage1'']) ''py_stage1'') 2
            [Ndarray 10 Float32, Ndarray 2 Float32],
          PyMethCalled (Bound_method (Stepper ''EulerStep'' [''stage1'', ''stage2'', ''py_stage1'']) ''py_stage1'') 1
            [Ndarray 10 Float32, Ndarray 2 Float32],
          CountRead 2 4, BufferRead 12 ''x'' 1202, BufferRead 12 ''u'' 1202,
          KernelLaunched ''stage1_boundary''
            [Queue 7, Tuple1 4, PyNone, DevData 1202, DevData 1202, Ndarray 10 Float32, Ndarray 2 Float32],
          CountRead 1 4, BufferRead 11 ''x'' 1103, BufferRead 11 ''u'' 1103,
          KernelLaunched ''stage1_fluid''
            [Queue 7, Tuple1 4, PyNone, DevData 1103, DevData 1103, Ndarray 10 Float32, Ndarray 2 Float32]] \<and>
   KernelLaunched ''stage1_boundary''
     [Queue 7, Tuple1 4, DevData 1202, DevData 1202, Ndarray 10 Float32, Ndarray 2 Float32]
     \<notin> set (projr (map_sum id trace (do_stage ex_env ''stage1'' ex_running)))"
  by (simp add: ex_stage1_trace)

text \<open>
  Claim C1, amended. With \<^verbatim>\<open>t\<close> and \<^verbatim>\<open>dt\<close> set and the call table as
  \<^verbatim>\<open>_setup_call_data\<close> builds it, a stage execution returns and makes these calls, in this
  order. First every hook in the hook table of the stage, in table order, each with
  \<^verbatim>\<open>(destination, t, dt)\<close>, \<^verbatim>\<open>t\<close> and \<^verbatim>\<open>dt\<close> cast to the active precision. Then, for
  each entry of the call table of the stage, in table order, one block: the read of that
  destination's particle count, the reads of its buffers through the late accessors, and
  the launch of the kernel with the positional arguments queue, \<^verbatim>\<open>(count,)\<close>, \<^verbatim>\<open>None\<close>,
  the buffers read, \<^verbatim>\<open>t\<close>, \<^verbatim>\<open>dt\<close>.
\<close>

theorem do_stage_hooks_then_launches:
  assumes "self_t s = Some tv" and "self_dt s = Some dtv"
    and "built_calls q (calls (helper s))"
    and "extra_args = [Ndarray tv (stage_dtype s), Ndarray dtv (stage_dtype s)]"
  shows "\<exists>s' blocks. do_stage env method s = Inr s' \<and>
           trace s' = trace s @ py_events extra_args (py_call_info_of s method) @ concat blocks \<and>
           list_all2 (launch_block q extra_args) (call_info_of s method) blocks"
proof -
  have "built_info q (call_info_of s method)"
    using built_calls_lookup [OF assms(3)] by (simp add: call_info_of_def)
  from do_stage_run [OF assms(1,2) this assms(4), of env] show ?thesis
    by blast
qed

theorem do_stage_hooks_then_launches_witness:
  "self_t ex_running = Some 10 \<and> self_dt ex_running = Some 2 \<and>
   built_calls 7 (calls (helper ex_running)) \<and>
   (\<exists>s' blocks. do_stage ex_env ''stage1'' ex_running = Inr s' \<and>
      trace s' = trace ex_running @
        py_events [Ndarray 10 Float32, Ndarray 2 Float32] (py_call_info_of ex_running ''stage1'') @
        concat blocks \<and>
      list_all2 (launch_block 7 [Ndarray 10 Float32, Ndarray 2 Float32])
        (call_info_of ex_running ''stage1'') blocks)"
proof -
  have pre: "self_t ex_running = Some 10" "self_dt ex_running = Some 2"
    "[Ndarray 10 Float32, Ndarray 2 Float32] =
       [Ndarray 10 (stage_dtype ex_running), Ndarray (2::int) (stage_dtype ex_running)]"
    by (simp_all add: ex_running_def ex_fresh_def stage_dtype_def)
  note run = do_stage_hooks_then_launches [OF pre(1,2) ex_running_built pre(3), of ex_env "''stage1''"]
  show ?thesis
    by (intro conjI pre(1) pre(2) ex_running_built run)
qed

text \<open>
  Claim C3. \<^verbatim>\<open>_setup_call_data\<close> stores, for each buffer argument, a late accessor and no
  address: every argument list it builds is the queue, two \<^verbatim>\<open>None\<close>s and accessors. In
  a stage execution each launch gets the addresses its accessors return right before it
  (the block of the launch), and each address returned is the one the device helper's
  field has at that moment, after every call made earlier in the stage: a buffer
  reallocated before the stage, or by a hook or a kernel earlier in it, is read at its new
  address. After the stage the table still holds the accessors.
\<close>

theorem late_accessors_read_current_buffers:
  "(setup_compiled_module env c module acc w h = Inr s0 \<and> calls h = [] \<longrightarrow>
      built_calls (queue c) (calls (helper s0))) \<and>
   (self_t s = Some tv \<and> self_dt s = Some dtv \<and> built_calls q (calls (helper s)) \<and>
    extra_args = [Ndarray tv (stage_dtype s), Ndarray dtv (stage_dtype s)] \<longrightarrow>
      (\<exists>s' blocks. do_stage env method s = Inr s' \<and>
         trace s' = trace s @ py_events extra_args (py_call_info_of s method) @ concat blocks \<and>
         list_all2 (launch_block q extra_args) (call_info_of s method) blocks \<and>
         fresh_buffers env (world s) (py_events extra_args (py_call_info_of s method) @ concat blocks) \<and>
         built_calls q (calls (helper s'))))"
proof (intro conjI impI)
  assume "setup_compiled_module env c module acc w h = Inr s0 \<and> calls h = []"
  then have "setup_compiled_module env c module acc w h = Inr s0" and "calls h = []"
    by simp_all
  then show "built_calls (queue c) (calls (helper s0))"
    by (rule setup_compiled_module_built)
next
  assume a: "self_t s = Some tv \<and> self_dt s = Some dtv \<and> built_calls q (calls (helper s)) \<and>
    extra_args = [Ndarray tv (stage_dtype s), Ndarray dtv (stage_dtype s)]"
  then have "built_info q (call_info_of s method)"
    using built_calls_lookup [of q "calls (helper s)" "method"] by (simp add: call_info_of_def)
  from do_stage_run [OF _ _ this, of tv dtv extra_args env] a obtain s' blocks where
    run: "do_stage env method s = Inr s'"
    and t: "trace s' = trace s @ py_events extra_args (py_call_info_of s method) @ concat blocks"
    and l: "list_all2 (launch_block q extra_args) (call_info_of s method) blocks"
    and f: "fresh_reads env (world s) (py_events extra_args (py_call_info_of s method) @ concat blocks)"
    by blast
  from a have "built_calls q (calls (helper s))" by simp
  with run have b: "built_calls q (calls (helper s'))"
    by (rule do_stage_built)
  have fb: "fresh_buffers env (world s) (py_events extra_args (py_call_info_of s method) @ concat blocks)"
    using f by (rule fresh_reads_buffers)
  show "\<exists>s' blocks. do_stage env method s = Inr s' \<and>
         trace s' = trace s @ py_events extra_args (py_call_info_of s method) @ concat blocks \<and>
         list_all2 (launch_block q extra_args) (call_info_of s method) blocks \<and>
         fresh_buffers env (world s) (py_events extra_args (py_call_info_of s method) @ concat blocks) \<and>
         built_calls q (calls (helper s'))"
    by (rule exI [of _ s'], rule exI [of _ blocks]) (intro conjI run t l fb b)
qed

theorem late_accessors_read_current_buffers_witness:
  "setup_compiled_module ex_env ex_collab [''stage1_fluid'', ''stage2_fluid'', ''stage1_boundary''] 9 0
     (ex_helper\<lparr>py_calls := [], calls := [], program := None\<rparr>) = Inr ex_fresh \<and>
   built_calls (queue ex_collab) (calls (helper ex_fresh)) \<and>
   self_t ex_running = Some 10 \<and> self_dt ex_running = Some 2 \<and>
   built_calls 7 (calls (helper ex_running)) \<and>
   (\<exists>s' blocks. do_stage ex_env ''stage1'' ex_running = Inr s' \<and>
      trace s' = trace ex_running @
        py_events [Ndarray 10 Float32, Ndarray 2 Float32] (py_call_info_of ex_running ''stage1'') @
        concat blocks \<and>
      list_all2 (launch_block 7 [Ndarray 10 Float32, Ndarray 2 Float32])
        (call_info_of ex_running ''stage1'') blocks \<and>
      fresh_buffers ex_env (world ex_running)
        (py_events [Ndarray 10 Float32, Ndarray 2 Float32] (py_call_info_of ex_running ''stage1'') @
         concat blocks) \<and>
      built_calls 7 (calls (helper s')))"
proof -
  have pre: "self_t ex_running = Some 10" "self_dt ex_running = Some 2"
    "[Ndarray 10 Float32, Ndarray 2 Float32] =
       [Ndarray 10 (stage_dtype ex_running), Ndarray (2::int) (stage_dtype ex_running)]"
    by (simp_all add: ex_running_def ex_fresh_def stage_dtype_def)
  have empty: "calls (ex_helper\<lparr>py_calls := [], calls := [], program := None\<rparr>) = []"
    by simp
  note both = late_accessors_read_current_buffers
         [of ex_env ex_collab "[''stage1_fluid'', ''stage2_fluid'', ''stage1_boundary'']" 9 0
             "ex_helper\<lparr>py_calls := [], calls := [], program := None\<rparr>" ex_fresh
             ex_running 10 2 7 "[Ndarray 10 Float32, Ndarray 2 Float32]" "''stage1''"]
  have built: "built_calls (queue ex_collab) (calls (helper ex_fresh))"
    by (rule both [THEN conjunct1, rule_format]) (intro conjI ex_setup empty)
  have run: "\<exists>s' blocks. do_stage ex_env ''stage1'' ex_running = Inr s' \<and>
      trace s' = trace ex_running @
        py_events [Ndarray 10 Float32, Ndarray 2 Float32] (py_call_info_of ex_running ''stage1'') @
        concat blocks \<and>
      list_all2 (launch_block 7 [Ndarray 10 Float32, Ndarray 2 Float32])
        (call_info_of ex_running ''stage1'') blocks \<and>
      fresh_buffers ex_env (world ex_running)
        (py_events [Ndarray 10 Float32, Ndarray 2 Float32] (py_call_info_of ex_running ''stage1'') @
         concat blocks) \<and>
      built_calls 7 (calls (helper s'))"
    by (rule both [THEN conjunct2, rule_format]) (intro conjI pre ex_running_built)
  show ?thesis
    by (intro conjI ex_setup built pre(1) pre(2) ex_running_built run)
qed

text \<open>
  Claim C4. In a stage execution every launch is preceded, in its own block, by the read
  of its destination's particle count, and the launch passes that count, whatever count
  an earlier stage left in the table. Each count read returns the count the destination
  has at that moment, after every call made earlier in the stage: a count changed before
  the stage, or by a hook or a kernel earlier in it, is the one launched with.
\<close>

theorem launch_uses_current_count:
  assumes "self_t s = Some tv" and "self_dt s = Some dtv"
    and "built_calls q (calls (helper s))"
    and "extra_args = [Ndarray tv (stage_dtype s), Ndarray dtv (stage_dtype s)]"
  shows "\<exists>s' blocks. do_stage env method s = Inr s' \<and>
           trace s' = trace s @ py_events extra_args (py_call_info_of s method) @ concat blocks \<and>
           list_all2 (launch_block q extra_args) (call_info_of s method) blocks \<and>
           fresh_counts env (world s) (py_events extra_args (py_call_info_of s method) @ concat blocks)"
proof -
  have "built_info q (call_info_of s method)"
    using built_calls_lookup [OF assms(3)] by (simp add: call_info_of_def)
  from do_stage_run [OF assms(1,2) this assms(4), of env] obtain s' blocks where
    run: "do_stage env method s = Inr s'"
    and t: "trace s' = trace s @ py_events extra_args (py_call_info_of s method) @ concat blocks"
    and l: "list_all2 (launch_block q extra_args) (call_info_of s method) blocks"
    and f: "fresh_reads env (world s) (py_events extra_args (py_call_info_of s method) @ concat blocks)"
    by blast
  have fc: "fresh_counts env (world s) (py_events extra_args (py_call_info_of s method) @ concat blocks)"
    using f by (rule fresh_reads_counts)
  show ?thesis
    by (rule exI [of _ s'], rule exI [of _ blocks]) (intro conjI run t l fc)
qed

theorem launch_uses_current_count_witness:
  "self_t ex_running = Some 10 \<and> self_dt ex_running = Some 2 \<and>
   built_calls 7 (calls (helper ex_running)) \<and>
   (\<exists>s' blocks. do_stage ex_env ''stage1'' ex_running = Inr s' \<and>
      trace s' = trace ex_running @
        py_events [Ndarray 10 Float32, Ndarray 2 Float32] (py_call_info_of ex_running ''stage1'') @
        concat blocks \<and>
      list_all2 (launch_block 7 [Ndarray 10 Float32, Ndarray 2 Float32])
        (call_info_of ex_running ''stage1'') blocks \<and>
      fresh_counts ex_env (world ex_running)
        (py_events [Ndarray 10 Float32, Ndarray 2 Float32] (py_call_info_of ex_running ''stage1'') @
         concat blocks))"
proof -
  have pre: "self_t ex_running = Some 10" "self_dt ex_running = Some 2"
    "[Ndarray 10 Float32, Ndarray 2 Float32] =
       [Ndarray 10 (stage_dtype ex_running), Ndarray (2::int) (stage_dtype ex_running)]"
    by (simp_all add: ex_running_def ex_fresh_def stage_dtype_def)
  note run = launch_uses_current_count [OF pre(1,2) ex_running_built pre(3), of ex_env "''stage1''"]
  show ?thesis
    by (intro conjI pre(1) pre(2) ex_running_built run)
qed

lemma launched_kernels_append:
  "launched_kernels (es @ fs) = launched_kernels es @ launched_kernels fs"
  by (induction es rule: launched_kernels.induct) auto

lemma launched_kernels_py_events: "launched_kernels (py_events extra items) = []"
  by (induction items) (auto simp: py_events_def)

lemma launched_kernels_reads:
  "launched_kernels (map (\<lambda>(g, x, a). BufferRead g x a) rs @ es) = launched_kernels es"
  by (induction rs) auto

lemma launched_kernels_block:
  "launch_block q extra (name, call, args, dest) block \<Longrightarrow> launched_kernels block = [call]"
  by (auto simp: launch_block_def launched_kernels_reads)

lemma launched_kernels_blocks:
  "list_all2 (launch_block q extra) items blocks \<Longrightarrow>
   launched_kernels (concat blocks) = map (\<lambda>(name, call, args, dest). call) items"
proof (induction items blocks rule: list_all2_induct)
  case Nil
  then show ?case by simp
next
  case (Cons item items block blocks)
  obtain name call args dest where item: "item = (name, call, args, dest)"
    by (cases item) auto
  from Cons show ?case
    by (simp add: item launched_kernels_append launched_kernels_block)
qed

text \<open>The loops of \<^verbatim>\<open>_setup_call_data\<close> read only the steppers of the integrator.\<close>

lemma setup_py_dests_object:
  "setup_py_dests c stp m ds (h\<lparr>object := x\<rparr>) =
     map_sum id (\<lambda>h'. h'\<lparr>object := x\<rparr>) (setup_py_dests c stp m ds h)"
proof (induction ds arbitrary: h)
  case Nil
  then show ?case by simp
next
  case (Cons d ds)
  have upd: "(h\<lparr>object := x\<rparr>)\<lparr>py_calls := v\<rparr> = (h\<lparr>py_calls := v\<rparr>)\<lparr>object := x\<rparr>" for v
    by simp
  show ?case
    by (simp add: Cons.IH upd del: helper.update_convs split: sum.splits)
qed

lemma setup_py_methods_object:
  "setup_py_methods c stp items (h\<lparr>object := x\<rparr>) =
     map_sum id (\<lambda>h'. h'\<lparr>object := x\<rparr>) (setup_py_methods c stp items h)"
proof (induction items arbitrary: h)
  case Nil
  then show ?case by simp
next
  case (Cons item items)
  obtain meth entries where item: "item = (meth, entries)"
    by (cases item) auto
  show ?case
    by (simp add: item setup_py_dests_object Cons.IH split: sum.splits)
qed

lemma setup_dests_object:
  "setup_dests env c w m items (h\<lparr>object := x\<rparr>) =
     map_sum id (\<lambda>h'. h'\<lparr>object := x\<rparr>) (setup_dests env c w m items h)"
proof (induction items arbitrary: h)
  case Nil
  then show ?case by simp
next
  case (Cons item items)
  obtain dest_name kern args where item: "item = (dest_name, kern, args)"
    by (cases item) auto
  have upd: "(h\<lparr>object := x\<rparr>)\<lparr>calls := v\<rparr> = (h\<lparr>calls := v\<rparr>)\<lparr>object := x\<rparr>" for v
    by simp
  show ?case
    by (simp add: item Cons.IH upd Let_def del: helper.update_convs split: sum.splits)
qed

lemma setup_methods_data_object:
  "setup_methods_data env c w items (h\<lparr>object := x\<rparr>) =
     map_sum id (\<lambda>h'. h'\<lparr>object := x\<rparr>) (setup_methods_data env c w items h)"
proof (induction items arbitrary: h)
  case Nil
  then show ?case by simp
next
  case (Cons item items)
  obtain meth entries where item: "item = (meth, entries)"
    by (cases item) auto
  show ?case
    by (simp add: item setup_dests_object Cons.IH split: sum.splits)
qed

lemma setup_dests_frame:
  "setup_dests env c w m items h = Inr h' \<Longrightarrow> same_helper_but_calls h h'"
proof (induction items arbitrary: h)
  case Nil
  then show ?case by (simp add: same_helper_but_calls_def)
next
  case (Cons item items)
  obtain dest_name kern args where item: "item = (dest_name, kern, args)"
    by (cases item) auto
  from Cons.prems obtain h1 where
    "setup_dests env c w m items h1 = Inr h'" "same_helper_but_calls h h1"
    by (auto simp: item Let_def same_helper_but_calls_def split: sum.splits)
  with Cons.IH [of h1] show ?case
    by (simp add: same_helper_but_calls_def)
qed

lemma setup_methods_data_frame:
  "setup_methods_data env c w items h = Inr h' \<Longrightarrow> same_helper_but_calls h h'"
proof (induction items arbitrary: h)
  case Nil
  then show ?case by (simp add: same_helper_but_calls_def)
next
  case (Cons item items)
  obtain meth entries where item: "item = (meth, entries)"
    by (cases item) auto
  from Cons.prems obtain h1 where
    one: "setup_dests env c w meth entries h = Inr h1"
    and rest: "setup_methods_data env c w items h1 = Inr h'"
    by (auto simp: item split: sum.splits)
  from setup_dests_frame [OF one] Cons.IH [OF rest] show ?case
    by (simp add: same_helper_but_calls_def)
qed

lemma setup_call_data_object:
  assumes "setup_call_data env c w h = Inr h'"
  shows "object h' = object h \<and> object h \<noteq> None"
proof -
  from assms obtain ob h1 where
    ob: "object h = Some ob"
    and py: "setup_py_methods c (steppers ob) (py_data h) h = Inr h1"
    and da: "setup_methods_data env c w (data h1) h1 = Inr h'"
    by (auto simp: setup_call_data_def split: option.splits sum.splits)
  from setup_py_methods_calls [OF py] setup_methods_data_frame [OF da] ob show ?thesis
    by (simp add: same_helper_but_calls_def)
qed

lemma isl_setup_compiled_module:
  "isl (setup_compiled_module env c module acc w h) =
     isl (setup_call_data env c w (h\<lparr>program := Some module\<rparr>))"
proof (cases "setup_call_data env c w (h\<lparr>program := Some module\<rparr>)")
  case (Inl e)
  then show ?thesis by (simp add: setup_compiled_module_def)
next
  case (Inr h1)
  from setup_call_data_object [OF Inr] obtain ob where "object h1 = Some ob"
    by auto
  with Inr show ?thesis
    by (simp add: setup_compiled_module_def opencl_integrator_init_def get_timestep_code_def)
qed

lemma setup_call_data_body:
  "isl (setup_call_data env c w (h\<lparr>object := Some (ob\<lparr>one_timestep_body := p\<rparr>)\<rparr>)) =
   isl (setup_call_data env c w (h\<lparr>object := Some ob\<rparr>))"
proof -
  have py: "setup_py_methods c (steppers ob) (py_data h) (h\<lparr>object := x\<rparr>) =
      map_sum id (\<lambda>h'. h'\<lparr>object := x\<rparr>) (setup_py_methods c (steppers ob) (py_data h) h)" for x
    by (rule setup_py_methods_object)
  have da: "setup_methods_data env c w items (h1\<lparr>object := x\<rparr>) =
      map_sum id (\<lambda>h'. h'\<lparr>object := x\<rparr>) (setup_methods_data env c w items h1)" for x items h1
    by (rule setup_methods_data_object)
  show ?thesis
    by (cases "setup_py_methods c (steppers ob) (py_data h) h")
       (simp_all add: setup_call_data_def py da isl_map_sum)
qed

lemma do_stage_empty:
  assumes "self_t s = Some tv" and "self_dt s = Some dtv"
    and "call_info_of s m = []" and "py_call_info_of s m = []"
  shows "\<exists>s'. do_stage env m s = Inr s' \<and> trace s' = trace s \<and> world s' = world s"
proof -
  have "built_info 0 (call_info_of s m)"
    by (simp add: assms(3) built_info_def)
  from do_stage_run [where env = env and q = 0, OF assms(1,2) this refl] show ?thesis
    by (auto simp: assms(3,4) py_events_def)
qed

lemma ex_step_runs: "\<not> isl (step ex_env 0 1 ex_fresh)"
  using ex_step_trace by (cases "step ex_env 0 1 ex_fresh") auto

text \<open>
  Claim C2, as stated, fails. The example integrator's timestep procedure starts with
  \<^verbatim>\<open>self.initialize()\<close> and no destination defines \<^verbatim>\<open>initialize\<close>: the call table and
  the hook table have nothing for it. Code generation and \<^verbatim>\<open>setup_compiled_module\<close>
  return the runtime without an error, and the first step returns too.
\<close>

theorem absent_stage_setup_error_counterexample:
  "map_sum id snd (get_code ex_collab (helper_init (Some ex_integrator))) =
     Inr (ex_helper\<lparr>py_calls := [], calls := [], program := None\<rparr>) \<and>
   setup_compiled_module ex_env ex_collab [''stage1_fluid'', ''stage2_fluid'', ''stage1_boundary''] 9 0
     (ex_helper\<lparr>py_calls := [], calls := [], program := None\<rparr>) = Inr ex_fresh \<and>
   hd (one_timestep ex_fresh) = Call_method ''initialize'' \<and>
   call_info_of ex_fresh ''initialize'' = [] \<and>
   py_call_info_of ex_fresh ''initialize'' = [] \<and>
   \<not> isl (step ex_env 0 1 ex_fresh)"
proof (intro conjI)
  show "hd (one_timestep ex_fresh) = Call_method ''initialize''"
    by (simp add: ex_fresh_def)
  show "call_info_of ex_fresh ''initialize'' = []"
    by (simp add: call_info_of_def ex_fresh_def ex_helper_def dd_getitem_def)
  show "py_call_info_of ex_fresh ''initialize'' = []"
    by (simp add: py_call_info_of_def ex_fresh_def ex_helper_def dd_getitem_def)
qed (rule ex_get_code ex_setup ex_step_runs)+

text \<open>
  Claim C2, amended. Setup does not look at the timestep procedure: whether
  \<^verbatim>\<open>setup_compiled_module\<close> raises is the same for every procedure, so a stage that no
  destination defines is not a setup error. With \<^verbatim>\<open>t\<close> and \<^verbatim>\<open>dt\<close> set, running a stage
  for which the call table and the hook table have nothing returns without an error, makes
  no call and leaves the collaborators as they are. A name that \<^verbatim>\<open>_setup_methods\<close> did not
  bind raises \<^verbatim>\<open>AttributeError\<close> when the timestep procedure reaches it. A stage that only
  some destinations define is not an error: the kernels launched are those of the entries
  the call table has for the stage, in table order, and no other destination gets a
  launch.
\<close>

theorem absent_stage_not_detected_at_setup:
  "isl (setup_compiled_module env c module acc w (h\<lparr>object := Some (ob\<lparr>one_timestep_body := p\<rparr>)\<rparr>)) =
     isl (setup_compiled_module env c module acc w (h\<lparr>object := Some ob\<rparr>)) \<and>
   (self_t s = Some tv \<and> self_dt s = Some dtv \<and>
    call_info_of s m = [] \<and> py_call_info_of s m = [] \<longrightarrow>
      (\<exists>s'. do_stage env m s = Inr s' \<and> trace s' = trace s \<and> world s' = world s)) \<and>
   (m \<notin> set (methods s) \<longrightarrow> exec_stmt env t0 dt0 (Call_method m) s = Inl (AttributeError m)) \<and>
   (self_t s = Some tv \<and> self_dt s = Some dtv \<and> built_calls q (calls (helper s)) \<longrightarrow>
      (\<exists>s' new. do_stage env m s = Inr s' \<and> trace s' = trace s @ new \<and>
         launched_kernels new = map (\<lambda>(name, call, args, dest). call) (call_info_of s m)))"
proof (intro conjI impI)
  have e: "(h\<lparr>object := x\<rparr>)\<lparr>program := Some module\<rparr> = (h\<lparr>program := Some module\<rparr>)\<lparr>object := x\<rparr>" for x
    by simp
  show "isl (setup_compiled_module env c module acc w (h\<lparr>object := Some (ob\<lparr>one_timestep_body := p\<rparr>)\<rparr>)) =
     isl (setup_compiled_module env c module acc w (h\<lparr>object := Some ob\<rparr>))"
    unfolding isl_setup_compiled_module e by (rule setup_call_data_body)
next
  assume "self_t s = Some tv \<and> self_dt s = Some dtv \<and>
    call_info_of s m = [] \<and> py_call_info_of s m = []"
  then show "\<exists>s'. do_stage env m s = Inr s' \<and> trace s' = trace s \<and> world s' = world s"
    using do_stage_empty [of s tv dtv m env] by simp
next
  assume "m \<notin> set (methods s)"
  then show "exec_stmt env t0 dt0 (Call_method m) s = Inl (AttributeError m)"
    by simp
next
  assume a: "self_t s = Some tv \<and> self_dt s = Some dtv \<and> built_calls q (calls (helper s))"
  define extra where "extra = [Ndarray tv (stage_dtype s), Ndarray dtv (stage_dtype s)]"
  from a have "built_info q (call_info_of s m)"
    using built_calls_lookup [of q "calls (helper s)" m] by (simp add: call_info_of_def)
  from do_stage_run [where env = env, OF _ _ this extra_def] a obtain s' blocks where
    run: "do_stage env m s = Inr s'"
    and t: "trace s' = trace s @ (py_events extra (py_call_info_of s m) @ concat blocks)"
    and l: "list_all2 (launch_block q extra) (call_info_of s m) blocks"
    by auto
  have "launched_kernels (py_events extra (py_call_info_of s m) @ concat blocks) =
          map (\<lambda>(name, call, args, dest). call) (call_info_of s m)"
    using launched_kernels_blocks [OF l]
    by (simp add: launched_kernels_append launched_kernels_py_events)
  with run t show "\<exists>s' new. do_stage env m s = Inr s' \<and> trace s' = trace s @ new \<and>
         launched_kernels new = map (\<lambda>(name, call, args, dest). call) (call_info_of s m)"
    by blast
qed

theorem absent_stage_not_detected_at_setup_witness:
  "self_t ex_running = Some 10 \<and> self_dt ex_running = Some 2 \<and>
   call_info_of ex_running ''stage3'' = [] \<and> py_call_info_of ex_running ''stage3'' = [] \<and>
   ''stage3'' \<notin> set (methods ex_running) \<and> built_calls 7 (calls (helper ex_running)) \<and>
   (\<exists>s'. do_stage ex_env ''stage3'' ex_running = Inr s' \<and> trace s' = trace ex_running \<and>
      world s' = world ex_running) \<and>
   exec_stmt ex_env 0 1 (Call_method ''stage3'') ex_running = Inl (AttributeError ''stage3'') \<and>
   (\<exists>s' new. do_stage ex_env ''stage2'' ex_running = Inr s' \<and> trace s' = trace ex_running @ new \<and>
      launched_kernels new = map (\<lambda>(name, call, args, dest). call) (call_info_of ex_running ''stage2''))"
proof -
  have pre: "self_t ex_running = Some 10" "self_dt ex_running = Some 2"
    "call_info_of ex_running ''stage3'' = []" "py_call_info_of ex_running ''stage3'' = []"
    "''stage3'' \<notin> set (methods ex_running)"
    by (simp_all add: ex_running_def ex_fresh_def ex_helper_def call_info_of_def py_call_info_of_def
        dd_getitem_def)
  note absent = absent_stage_not_detected_at_setup
    [where env = ex_env and c = ex_collab and module = "[]" and acc = 9 and w = 0 and h = ex_helper
       and ob = ex_integrator and p = "[]" and s = ex_running and tv = 10 and dtv = 2
       and m = "''stage3''" and ?t0.0 = 0 and ?dt0.0 = 1 and q = 7]
  note partial = absent_stage_not_detected_at_setup
    [where env = ex_env and c = ex_collab and module = "[]" and acc = 9 and w = 0 and h = ex_helper
       and ob = ex_integrator and p = "[]" and s = ex_running and tv = 10 and dtv = 2
       and m = "''stage2''" and ?t0.0 = 0 and ?dt0.0 = 1 and q = 7]
  have 1: "\<exists>s'. do_stage ex_env ''stage3'' ex_running = Inr s' \<and> trace s' = trace ex_running \<and>
      world s' = world ex_running"
    by (rule absent [THEN conjunct2, THEN conjunct1, rule_format]) (intro conjI pre)
  have 2: "exec_stmt ex_env 0 1 (Call_method ''stage3'') ex_running = Inl (AttributeError ''stage3'')"
    by (rule absent [THEN conjunct2, THEN conjunct2, THEN conjunct1, rule_format]) (rule pre)
  have 3: "\<exists>s' new. do_stage ex_env ''stage2'' ex_running = Inr s' \<and> trace s' = trace ex_running @ new \<and>
      launched_kernels new = map (\<lambda>(name, call, args, dest). call) (call_info_of ex_running ''stage2'')"
    by (rule partial [THEN conjunct2, THEN conjunct2, THEN conjunct2, rule_format])
       (intro conjI pre ex_running_built)
  show ?thesis
    by (intro conjI pre ex_running_built 1 2 3)
qed

lemma set_update_subset:
  "(k', v') \<in> set (AList.update k v al) \<Longrightarrow> (k', v') = (k, v) \<or> (k', v') \<in> set al"
  by (induction al) (auto split: if_splits)

lemma collect_classes_keys:
  "set (keys (collect_classes items classes)) = set (keys classes) \<union> (cls_name \<circ> snd) ` set items"
proof (induction items arbitrary: classes)
  case Nil
  then show ?case by simp
next
  case (Cons item items)
  obtain dest stepper where item: "item = (dest, stepper)"
    by (cases item) auto
  have "set (keys (AList.update (cls_name stepper) stepper classes)) =
          insert (cls_name stepper) (set (keys classes))"
    using dom_update [of "cls_name stepper" stepper classes] by (simp add: keys_def)
  then show ?case
    by (simp add: item Cons.IH)
qed

lemma collect_classes_distinct:
  "distinct (keys classes) \<Longrightarrow> distinct (keys (collect_classes items classes))"
proof (induction items arbitrary: classes)
  case Nil
  then show ?case by simp
next
  case (Cons item items)
  obtain dest stepper where item: "item = (dest, stepper)"
    by (cases item) auto
  from Cons.prems have "distinct (keys (AList.update (cls_name stepper) stepper classes))"
    by (simp add: keys_def distinct_update)
  then show ?case
    by (simp add: item Cons.IH)
qed

lemma collect_classes_entries:
  assumes "(k, st) \<in> set (collect_classes items classes)"
  shows "(k, st) \<in> set classes \<or> (cls_name st = k \<and> st \<in> snd ` set items)"
  using assms
proof (induction items arbitrary: classes)
  case Nil
  then show ?case by simp
next
  case (Cons item items)
  obtain dest stepper where item: "item = (dest, stepper)"
    by (cases item) auto
  from Cons.prems have "(k, st) \<in> set (collect_classes items (AList.update (cls_name stepper) stepper classes))"
    by (simp add: item)
  from Cons.IH [OF this] show ?case
    using set_update_subset [of k st "cls_name stepper" stepper classes]
    by (auto simp: item)
qed

lemma lookup_all_found:
  assumes "set ks \<subseteq> set (keys classes)"
  shows "\<exists>found. lookup_all classes ks = Inr found \<and>
           list_all2 (\<lambda>k st. (k, st) \<in> set classes) ks found"
  using assms
proof (induction ks)
  case Nil
  then show ?case by simp
next
  case (Cons k ks)
  from Cons.prems have "k \<in> fst ` set classes"
    by (simp add: keys_def)
  then obtain st where st: "map_of classes k = Some st"
    by (metis domD dom_map_of_conv_image_fst)
  then have mem: "(k, st) \<in> set classes"
    by (rule map_of_SomeD)
  from Cons obtain found where
    "lookup_all classes ks = Inr found" "list_all2 (\<lambda>k st. (k, st) \<in> set classes) ks found"
    by auto
  with st mem show ?case
    by (simp add: getitem_def)
qed

lemma translated_instances_once:
  assumes "object h = Some ob"
  shows "\<exists>found. translated_instances h = Inr found \<and>
           get_stepper_code c h = Inr (join newline (map (parse_instance c) found)) \<and>
           sorted (map cls_name found) \<and> distinct (map cls_name found) \<and>
           set (map cls_name found) = (cls_name \<circ> snd) ` set (steppers ob) \<and>
           set found \<subseteq> snd ` set (steppers ob)"
proof -
  define classes where "classes = collect_classes (steppers ob) []"
  have ks: "set (keys classes) = (cls_name \<circ> snd) ` set (steppers ob)"
    using collect_classes_keys [of "steppers ob" "[]"] by (simp add: classes_def keys_def)
  have dist: "distinct (keys classes)"
    using collect_classes_distinct [of "[]" "steppers ob"] by (simp add: classes_def keys_def)
  have entries: "(k, st) \<in> set classes \<Longrightarrow> cls_name st = k \<and> st \<in> snd ` set (steppers ob)" for k st
    using collect_classes_entries [of k st "steppers ob" "[]"] by (simp add: classes_def)
  have "set (sort (keys classes)) \<subseteq> set (keys classes)"
    by simp
  from lookup_all_found [OF this] obtain found where
    run: "lookup_all classes (sort (keys classes)) = Inr found"
    and rel: "list_all2 (\<lambda>k st. (k, st) \<in> set classes) (sort (keys classes)) found"
    by blast
  from rel have "list_all2 (\<lambda>k st. cls_name st = k \<and> st \<in> snd ` set (steppers ob)) (sort (keys classes)) found"
    by (rule list_all2_mono) (use entries in blast)
  then have names: "map cls_name found = sort (keys classes)"
    and mem: "set found \<subseteq> snd ` set (steppers ob)"
    by (induction rule: list_all2_induct) auto
  have ti: "translated_instances h = Inr found"
    using run assms by (simp add: translated_instances_def classes_def Let_def)
  show ?thesis
    by (rule exI [of _ found])
       (simp add: ti get_stepper_code_def names dist ks mem)
qed

lemma map_of_dd_setitem:
  "map_of (fst (dd_getitem (dd_setitem tbl m a b) m')) a' =
     (if m' = m \<and> a' = a then Some b else map_of (fst (dd_getitem tbl m')) a')"
  by (simp add: dd_getitem_setitem update_conv')

lemma get_stepper_kernel_run:
  assumes "object h = Some ob" and "map_of (steppers ob) dest = Some stepper"
  shows "get_stepper_kernel c dest m h =
     Inr (kernel_text
            (get_kernel_definition c (m @ ''_'' @ dest)
               (get_typed_args c (snd (get_array_names c (kernel_args c dest m)) @ [''t'', ''dt''])))
            (kernel_body c (cls_name stepper) m (kernel_args c dest m)),
          h\<lparr>data := dd_setitem (data h) m dest
               (m @ ''_'' @ dest, snd (get_array_names c (kernel_args c dest m)))\<rparr>)"
  using assms
  by (cases "get_array_names c (kernel_args c dest m)")
     (simp add: get_stepper_kernel_def kernel_text_def Let_def)

text \<open>
  Claim C9. \<^verbatim>\<open>get_stepper_code\<close> hands one stepper instance for each class name in use to
  the translator, in sorted order of the class names, however many destinations use the
  class. \<^verbatim>\<open>get_stepper_kernel\<close>, called for two different destinations whose steppers have
  the same class (and so the same method arguments), records two entries in the kernel
  table of the stage, one under each destination, named \<^verbatim>\<open>stage_destination\<close>; the two
  names differ and the two kernels have the same body.
\<close>

theorem one_translation_per_class_one_kernel_per_destination:
  "(object h = Some ob \<longrightarrow>
      (\<exists>found. translated_instances h = Inr found \<and>
         get_stepper_code c h = Inr (join newline (map (parse_instance c) found)) \<and>
         sorted (map cls_name found) \<and> distinct (map cls_name found) \<and>
         set (map cls_name found) = (cls_name \<circ> snd) ` set (steppers ob) \<and>
         set found \<subseteq> snd ` set (steppers ob))) \<and>
   (object h = Some ob \<and>
    map_of (steppers ob) dest1 = Some stepper1 \<and> map_of (steppers ob) dest2 = Some stepper2 \<and>
    cls_name stepper1 = cls_name stepper2 \<and> dest1 \<noteq> dest2 \<and>
    get_args c dest1 m = get_args c dest2 m \<longrightarrow>
      (\<exists>sig1 sig2 body fields h1 h2.
         get_stepper_kernel c dest1 m h = Inr (kernel_text sig1 body, h1) \<and>
         get_stepper_kernel c dest2 m h1 = Inr (kernel_text sig2 body, h2) \<and>
         body = kernel_body c (cls_name stepper1) m (kernel_args c dest1 m) \<and>
         sig1 = get_kernel_definition c (m @ ''_'' @ dest1) (get_typed_args c (fields @ [''t'', ''dt''])) \<and>
         sig2 = get_kernel_definition c (m @ ''_'' @ dest2) (get_typed_args c (fields @ [''t'', ''dt''])) \<and>
         map_of (fst (dd_getitem (data h2) m)) dest1 = Some (m @ ''_'' @ dest1, fields) \<and>
         map_of (fst (dd_getitem (data h2) m)) dest2 = Some (m @ ''_'' @ dest2, fields) \<and>
         m @ ''_'' @ dest1 \<noteq> m @ ''_'' @ dest2))"
proof (intro conjI impI)
  assume "object h = Some ob"
  then show "\<exists>found. translated_instances h = Inr found \<and>
         get_stepper_code c h = Inr (join newline (map (parse_instance c) found)) \<and>
         sorted (map cls_name found) \<and> distinct (map cls_name found) \<and>
         set (map cls_name found) = (cls_name \<circ> snd) ` set (steppers ob) \<and>
         set found \<subseteq> snd ` set (steppers ob)"
    by (rule translated_instances_once)
next
  assume a: "object h = Some ob \<and>
    map_of (steppers ob) dest1 = Some stepper1 \<and> map_of (steppers ob) dest2 = Some stepper2 \<and>
    cls_name stepper1 = cls_name stepper2 \<and> dest1 \<noteq> dest2 \<and>
    get_args c dest1 m = get_args c dest2 m"
  define fields where "fields = snd (get_array_names c (kernel_args c dest1 m))"
  define h1 where "h1 = h\<lparr>data := dd_setitem (data h) m dest1 (m @ ''_'' @ dest1, fields)\<rparr>"
  define h2 where "h2 = h1\<lparr>data := dd_setitem (data h1) m dest2 (m @ ''_'' @ dest2, fields)\<rparr>"
  from a have same_args: "kernel_args c dest2 m = kernel_args c dest1 m"
    by (simp add: kernel_args_def)
  have k1: "get_stepper_kernel c dest1 m h =
      Inr (kernel_text (get_kernel_definition c (m @ ''_'' @ dest1) (get_typed_args c (fields @ [''t'', ''dt''])))
             (kernel_body c (cls_name stepper1) m (kernel_args c dest1 m)), h1)"
    using a get_stepper_kernel_run [of h ob dest1 stepper1 c m] by (simp add: fields_def h1_def)
  have "object h1 = Some ob"
    using a by (simp add: h1_def)
  then have k2: "get_stepper_kernel c dest2 m h1 =
      Inr (kernel_text (get_kernel_definition c (m @ ''_'' @ dest2) (get_typed_args c (fields @ [''t'', ''dt''])))
             (kernel_body c (cls_name stepper1) m (kernel_args c dest1 m)), h2)"
    using a get_stepper_kernel_run [of h1 ob dest2 stepper2 c m]
    by (simp add: fields_def h2_def same_args)
  have e1: "map_of (fst (dd_getitem (data h2) m)) dest1 = Some (m @ ''_'' @ dest1, fields)"
    using a by (simp add: h2_def h1_def map_of_dd_setitem)
  have e2: "map_of (fst (dd_getitem (data h2) m)) dest2 = Some (m @ ''_'' @ dest2, fields)"
    by (simp add: h2_def map_of_dd_setitem)
  have ne: "m @ ''_'' @ dest1 \<noteq> m @ ''_'' @ dest2"
    using a by simp
  show "\<exists>sig1 sig2 body fields h1 h2.
         get_stepper_kernel c dest1 m h = Inr (kernel_text sig1 body, h1) \<and>
         get_stepper_kernel c dest2 m h1 = Inr (kernel_text sig2 body, h2) \<and>
         body = kernel_body c (cls_name stepper1) m (kernel_args c dest1 m) \<and>
         sig1 = get_kernel_definition c (m @ ''_'' @ dest1) (get_typed_args c (fields @ [''t'', ''dt''])) \<and>
         sig2 = get_kernel_definition c (m @ ''_'' @ dest2) (get_typed_args c (fields @ [''t'', ''dt''])) \<and>
         map_of (fst (dd_getitem (data h2) m)) dest1 = Some (m @ ''_'' @ dest1, fields) \<and>
         map_of (fst (dd_getitem (data h2) m)) dest2 = Some (m @ ''_'' @ dest2, fields) \<and>
         m @ ''_'' @ dest1 \<noteq> m @ ''_'' @ dest2"
    by (intro exI conjI, rule k1, rule k2, rule refl, rule refl, rule refl, rule e1, rule e2, rule ne)
qed

theorem one_translation_per_class_one_kernel_per_destination_witness:
  "object (helper_init (Some ex_integrator)) = Some ex_integrator \<and>
   map_of (steppers ex_integrator) ''fluid'' =
     Some (Stepper ''EulerStep'' [''stage1'', ''stage2'', ''py_stage1'']) \<and>
   map_of (steppers ex_integrator) ''boundary'' = Some (Stepper ''EulerStep'' [''stage1'', ''py_stage1'']) \<and>
   cls_name (Stepper ''EulerStep'' [''stage1'', ''stage2'', ''py_stage1'']) =
     cls_name (Stepper ''EulerStep'' [''stage1'', ''py_stage1'']) \<and>
   ''fluid'' \<noteq> ''boundary'' \<and>
   get_args ex_collab ''fluid'' ''stage1'' = get_args ex_collab ''boundary'' ''stage1'' \<and>
   (\<exists>found. translated_instances (helper_init (Some ex_integrator)) = Inr found \<and>
      get_stepper_code ex_collab (helper_init (Some ex_integrator)) =
        Inr (join newline (map (parse_instance ex_collab) found)) \<and>
      sorted (map cls_name found) \<and> distinct (map cls_name found) \<and>
      set (map cls_name found) = (cls_name \<circ> snd) ` set (steppers ex_integrator) \<and>
      set found \<subseteq> snd ` set (steppers ex_integrator)) \<and>
   (\<exists>sig1 sig2 body fields h1 h2.
      get_stepper_kernel ex_collab ''fluid'' ''stage1'' (helper_init (Some ex_integrator)) =
        Inr (kernel_text sig1 body, h1) \<and>
      get_stepper_kernel ex_collab ''boundary'' ''stage1'' h1 = Inr (kernel_text sig2 body, h2) \<and>
      body = kernel_body ex_collab (cls_name (Stepper ''EulerStep'' [''stage1'', ''stage2'', ''py_stage1'']))
               ''stage1'' (kernel_args ex_collab ''fluid'' ''stage1'') \<and>
      sig1 = get_kernel_definition ex_collab (''stage1'' @ ''_'' @ ''fluid'')
               (get_typed_args ex_collab (fields @ [''t'', ''dt''])) \<and>
      sig2 = get_kernel_definition ex_collab (''stage1'' @ ''_'' @ ''boundary'')
               (get_typed_args ex_collab (fields @ [''t'', ''dt''])) \<and>
      map_of (fst (dd_getitem (data h2) ''stage1'')) ''fluid'' = Some (''stage1'' @ ''_'' @ ''fluid'', fields) \<and>
      map_of (fst (dd_getitem (data h2) ''stage1'')) ''boundary'' =
        Some (''stage1'' @ ''_'' @ ''boundary'', fields) \<and>
      ''stage1'' @ ''_'' @ ''fluid'' \<noteq> ''stage1'' @ ''_'' @ ''boundary'')"
proof -
  have pre: "object (helper_init (Some ex_integrator)) = Some ex_integrator"
    "map_of (steppers ex_integrator) ''fluid'' =
       Some (Stepper ''EulerStep'' [''stage1'', ''stage2'', ''py_stage1''])"
    "map_of (steppers ex_integrator) ''boundary'' = Some (Stepper ''EulerStep'' [''stage1'', ''py_stage1''])"
    "cls_name (Stepper ''EulerStep'' [''stage1'', ''stage2'', ''py_stage1'']) =
       cls_name (Stepper ''EulerStep'' [''stage1'', ''py_stage1''])"
    "''fluid'' \<noteq> ''boundary''"
    "get_args ex_collab ''fluid'' ''stage1'' = get_args ex_collab ''boundary'' ''stage1''"
    by (simp_all add: helper_init_def ex_integrator_def ex_collab_def)
  note both = one_translation_per_class_one_kernel_per_destination
     [where h = "helper_init (Some ex_integrator)" and ob = ex_integrator and c = ex_collab
        and ?dest1.0 = "''fluid''" and ?dest2.0 = "''boundary''"
        and ?stepper1.0 = "Stepper ''EulerStep'' [''stage1'', ''stage2'', ''py_stage1'']"
        and ?stepper2.0 = "Stepper ''EulerStep'' [''stage1'', ''py_stage1'']"
        and m = "''stage1''"]
  note once = both [THEN conjunct1, rule_format, OF pre(1)]
  have hyps: "object (helper_init (Some ex_integrator)) = Some ex_integrator \<and>
    map_of (steppers ex_integrator) ''fluid'' =
       Some (Stepper ''EulerStep'' [''stage1'', ''stage2'', ''py_stage1'']) \<and>
    map_of (steppers ex_integrator) ''boundary'' = Some (Stepper ''EulerStep'' [''stage1'', ''py_stage1'']) \<and>
    cls_name (Stepper ''EulerStep'' [''stage1'', ''stage2'', ''py_stage1'']) =
       cls_name (Stepper ''EulerStep'' [''stage1'', ''py_stage1'']) \<and>
    ''fluid'' \<noteq> ''boundary'' \<and>
    get_args ex_collab ''fluid'' ''stage1'' = get_args ex_collab ''boundary'' ''stage1''"
    by (intro conjI pre)
  note two = both [THEN conjunct2, rule_format, OF hyps]
  show ?thesis
    by (intro conjI pre once two)
qed

lemma ins_ins [simp]: "ins a (ins a ks) = ins a ks"
  by (simp add: ins_def)

lemma dd_keys_setitem:
  "dd_keys (dd_setitem tbl k a b) k' = (if k' = k then ins a (dd_keys tbl k) else dd_keys tbl k')"
  by (simp add: dd_keys_def dd_getitem_setitem keys_def update_keys ins_def)

lemma dd_keys_empty [simp]: "dd_keys [] k = []"
  by (simp add: dd_keys_def dd_getitem_def keys_def)

lemma distinct_keys_setitem:
  "distinct (keys tbl) \<Longrightarrow> distinct (keys (dd_setitem tbl k a b))"
  by (auto simp: dd_setitem_def dd_getitem_def keys_def distinct_update update_keys
      split: option.splits dest: map_of_eq_None_iff [THEN iffD1])

lemma get_py_stage_code_run:
  assumes "get_py_stage_code dest meth h = Inr h'" and "object h = Some ob"
  shows "same_helper_but_data h h' \<and> data h' = data h \<and>
         py_data h' = (if has_py_stage ob dest (''py_'' @ meth)
                       then dd_setitem (py_data h) (''py_'' @ meth) dest dest else py_data h)"
  using assms
  by (auto simp: get_py_stage_code_def getitem_def has_py_stage_def same_helper_but_data_def Let_def
      split: option.splits if_splits)

lemma get_stepper_kernel_data:
  assumes "get_stepper_kernel c dest meth h = Inr (k, h')"
  shows "same_helper_but_data h h' \<and> py_data h' = py_data h \<and>
         data h' = dd_setitem (data h) meth dest
           (meth @ ''_'' @ dest, snd (get_array_names c (kernel_args c dest meth)))"
  using assms
  by (auto simp: get_stepper_kernel_def same_helper_but_data_def Let_def
      split: option.splits prod.splits)

lemma py_prefix_inj: "(''py_'' @ a = ''py_'' @ b) = (a = b)"
  by simp

lemma get_code_methods_run:
  assumes "get_code_methods c dest ms h = Inr (out, h')" and "object h = Some ob"
  shows "same_helper_but_data h h' \<and>
         (distinct (keys (data h)) \<longrightarrow> distinct (keys (data h'))) \<and>
         (distinct (keys (py_data h)) \<longrightarrow> distinct (keys (py_data h'))) \<and>
         (\<forall>k. dd_keys (data h') k =
                (if k \<in> set ms \<and> has_stepper_loop c dest k then ins dest (dd_keys (data h) k)
                 else dd_keys (data h) k)) \<and>
         (\<forall>k. dd_keys (py_data h') k =
                (if k \<in> (\<lambda>m. ''py_'' @ m) ` set ms \<and> has_py_stage ob dest k
                 then ins dest (dd_keys (py_data h) k)
                 else dd_keys (py_data h) k))"
  using assms
proof (induction ms arbitrary: h out)
  case Nil
  then show ?case by (simp add: same_helper_but_data_def)
next
  case (Cons meth ms)
  from Cons.prems(1) obtain h1 where py: "get_py_stage_code dest meth h = Inr h1"
    by (cases "get_py_stage_code dest meth h") auto
  define r where "r = (if has_stepper_loop c dest meth
              then (case get_stepper_kernel c dest meth h1 of
                      Inl e \<Rightarrow> Inl e
                    | Inr (k, h2) \<Rightarrow> Inr ([k], h2))
              else Inr ([], h1))"
  from Cons.prems(1) have step: "(case r of
             Inl e \<Rightarrow> Inl e
           | Inr (out1, h2) \<Rightarrow>
               (case get_code_methods c dest ms h2 of
                  Inl e \<Rightarrow> Inl e
                | Inr (out2, h3) \<Rightarrow> Inr (out1 @ out2, h3))) = Inr (out, h')"
    by (simp add: py r_def)
  then obtain out1 h2 where ke0: "r = Inr (out1, h2)"
    by (cases r) auto
  with step obtain out2 where rest: "get_code_methods c dest ms h2 = Inr (out2, h')"
    by (cases "get_code_methods c dest ms h2") auto
  note ke = ke0 [unfolded r_def]
  note r1 = get_py_stage_code_run [OF py Cons.prems(2)]
  have r2: "same_helper_but_data h1 h2 \<and> py_data h2 = py_data h1 \<and>
      (\<exists>v. data h2 = (if has_stepper_loop c dest meth then dd_setitem (data h1) meth dest v else data h1))"
  proof (cases "has_stepper_loop c dest meth")
    case True
    with ke obtain k where "get_stepper_kernel c dest meth h1 = Inr (k, h2)"
      by (auto split: sum.splits)
    from get_stepper_kernel_data [OF this] True show ?thesis by auto
  next
    case False
    with ke show ?thesis by (simp add: same_helper_but_data_def)
  qed
  then obtain v where d2: "data h2 = (if has_stepper_loop c dest meth then dd_setitem (data h1) meth dest v else data h1)"
    by blast
  from r1 r2 Cons.prems(2) have ob2: "object h2 = Some ob"
    by (simp add: same_helper_but_data_def)
  note ih = Cons.IH [OF rest ob2]
  have frame: "same_helper_but_data h h'"
    using r1 r2 ih by (simp add: same_helper_but_data_def)
  have dd: "distinct (keys (data h)) \<longrightarrow> distinct (keys (data h'))"
    using r1 d2 ih by (simp add: distinct_keys_setitem)
  have dp: "distinct (keys (py_data h)) \<longrightarrow> distinct (keys (py_data h'))"
    using r1 r2 ih by (simp add: distinct_keys_setitem)
  have kd: "dd_keys (data h') k =
                (if k \<in> set (meth # ms) \<and> has_stepper_loop c dest k then ins dest (dd_keys (data h) k)
                 else dd_keys (data h) k)" for k
    using r1 d2 ih by (auto simp: dd_keys_setitem)
  have kp: "dd_keys (py_data h') k =
                (if k \<in> (\<lambda>m. ''py_'' @ m) ` set (meth # ms) \<and> has_py_stage ob dest k
                 then ins dest (dd_keys (py_data h) k)
                 else dd_keys (py_data h) k)" for k
    using r1 r2 ih by (auto simp: dd_keys_setitem)
  from frame dd dp kd kp show ?case by blast
qed

lemma get_code_dests_run:
  assumes "get_code_dests c ds h = Inr (out, h')" and "object h = Some ob"
    and "distinct ds"
    and "set (dd_keys (data h) k) \<inter> set ds = {}"
    and "set (dd_keys (py_data h) kp) \<inter> set ds = {}"
  shows "same_helper_but_data h h' \<and>
         (distinct (keys (data h)) \<longrightarrow> distinct (keys (data h'))) \<and>
         (distinct (keys (py_data h)) \<longrightarrow> distinct (keys (py_data h'))) \<and>
         dd_keys (data h') k = dd_keys (data h) k @
           filter (\<lambda>d. k \<in> set (get_stepper_method_wrapper_names c) \<and> has_stepper_loop c d k) ds \<and>
         dd_keys (py_data h') kp = dd_keys (py_data h) kp @
           filter (\<lambda>d. kp \<in> (\<lambda>m. ''py_'' @ m) ` set (get_stepper_method_wrapper_names c) \<and>
                        has_py_stage ob d kp) ds"
  using assms
proof (induction ds arbitrary: h out)
  case Nil
  then show ?case by (simp add: same_helper_but_data_def)
next
  case (Cons d ds)
  from Cons.prems(1) obtain out1 h1 out2 where
    one: "get_code_methods c d (get_stepper_method_wrapper_names c) h = Inr (out1, h1)"
    and rest: "get_code_dests c ds h1 = Inr (out2, h')"
    by (auto split: sum.splits)
  note r1 = get_code_methods_run [OF one Cons.prems(2)]
  from r1 Cons.prems(2) have ob1: "object h1 = Some ob"
    by (simp add: same_helper_but_data_def)
  from Cons.prems(3) have dist: "distinct ds" and dn: "d \<notin> set ds"
    by simp_all
  from Cons.prems(4) have d0: "d \<notin> set (dd_keys (data h) k)" and rest0: "set (dd_keys (data h) k) \<inter> set ds = {}"
    by auto
  from Cons.prems(5) have p0: "d \<notin> set (dd_keys (py_data h) kp)" and restp: "set (dd_keys (py_data h) kp) \<inter> set ds = {}"
    by auto
  have k1: "dd_keys (data h1) k = dd_keys (data h) k @
      filter (\<lambda>d. k \<in> set (get_stepper_method_wrapper_names c) \<and> has_stepper_loop c d k) [d]"
    using r1 d0 by (simp add: ins_def)
  have p1: "dd_keys (py_data h1) kp = dd_keys (py_data h) kp @
      filter (\<lambda>d. kp \<in> (\<lambda>m. ''py_'' @ m) ` set (get_stepper_method_wrapper_names c) \<and>
                   has_py_stage ob d kp) [d]"
    using r1 p0 by (simp add: ins_def)
  have i1: "set (dd_keys (data h1) k) \<inter> set ds = {}"
    using k1 rest0 dn by auto
  have i2: "set (dd_keys (py_data h1) kp) \<inter> set ds = {}"
    using p1 restp dn by auto
  note ih = Cons.IH [OF rest ob1 dist i1 i2]
  have "same_helper_but_data h h'"
    using r1 ih by (simp add: same_helper_but_data_def)
  moreover have "distinct (keys (data h)) \<longrightarrow> distinct (keys (data h'))"
    using r1 ih by simp
  moreover have "distinct (keys (py_data h)) \<longrightarrow> distinct (keys (py_data h'))"
    using r1 ih by simp
  moreover have "dd_keys (data h') k = dd_keys (data h) k @
           filter (\<lambda>d. k \<in> set (get_stepper_method_wrapper_names c) \<and> has_stepper_loop c d k) (d # ds)"
    using ih k1 by simp
  moreover have "dd_keys (py_data h') kp = dd_keys (py_data h) kp @
           filter (\<lambda>d. kp \<in> (\<lambda>m. ''py_'' @ m) ` set (get_stepper_method_wrapper_names c) \<and>
                        has_py_stage ob d kp) (d # ds)"
    using ih p1 by simp
  ultimately show ?case by blast
qed

lemma get_code_run:
  assumes "get_code c (helper_init (Some ob)) = Inr (out, h1)"
    and "distinct (keys (steppers ob))"
  shows "object h1 = Some ob \<and> py_calls h1 = [] \<and> calls h1 = [] \<and> program h1 = None \<and>
         distinct (keys (data h1)) \<and> distinct (keys (py_data h1)) \<and>
         dd_keys (data h1) k =
           filter (\<lambda>d. k \<in> set (get_stepper_method_wrapper_names c) \<and> has_stepper_loop c d k)
             (sort (keys (steppers ob))) \<and>
         dd_keys (py_data h1) kp =
           filter (\<lambda>d. kp \<in> (\<lambda>m. ''py_'' @ m) ` set (get_stepper_method_wrapper_names c) \<and>
                        has_py_stage ob d kp)
             (sort (keys (steppers ob)))"
proof -
  let ?h0 = "helper_init (Some ob) :: 'a helper"
  have h0: "object ?h0 = Some ob" "py_calls ?h0 = []" "calls ?h0 = []" "program ?h0 = None"
    "data ?h0 = []" "py_data ?h0 = []"
    by (simp_all add: helper_init_def)
  from assms(1) obtain out1 where
    run: "get_code_dests c (sort (keys (steppers ob))) ?h0 = Inr (out1, h1)"
    by (auto simp: get_code_def h0 split: sum.splits)
  have "distinct (sort (keys (steppers ob)))"
    using assms(2) by simp
  from get_code_dests_run [OF run h0(1) this, of k kp] show ?thesis
    by (simp add: h0 same_helper_but_data_def keys_def)
qed

lemma foldl_ins_fresh:
  "distinct as \<Longrightarrow> set ks \<inter> set as = {} \<Longrightarrow> foldl (\<lambda>ks a. ins a ks) ks as = ks @ as"
  by (induction as arbitrary: ks) (auto simp: ins_def)

lemma dd_keys_Cons:
  "dd_keys ((m, entries) # rest) k = (if m = k then keys entries else dd_keys rest k)"
  by (simp add: dd_keys_def dd_getitem_def split: option.splits)

lemma dd_keys_absent: "k \<notin> fst ` set tbl \<Longrightarrow> dd_keys tbl k = []"
proof -
  assume "k \<notin> fst ` set tbl"
  then have "map_of tbl k = None"
    by (simp add: map_of_eq_None_iff)
  then show ?thesis
    by (simp add: dd_keys_def dd_getitem_def keys_def)
qed

lemma py_keyed_update: "py_keyed entries \<Longrightarrow> py_keyed (AList.update a (pm, a) entries)"
  by (induction entries) (auto simp: py_keyed_def)

lemma call_keyed_update: "call_keyed entries \<Longrightarrow> call_keyed (AList.update a (call, args, a) entries)"
  by (induction entries) (auto simp: call_keyed_def)

lemma py_keyed_empty [simp]: "py_keyed (fst (dd_getitem [] k))"
  by (simp add: py_keyed_def dd_getitem_def)

lemma call_keyed_empty [simp]: "call_keyed (fst (dd_getitem [] k))"
  by (simp add: call_keyed_def dd_getitem_def)

lemma setup_py_dests_keys:
  assumes "setup_py_dests c stp k ds h = Inr h'"
    and "\<forall>k'. py_keyed (fst (dd_getitem (py_calls h) k'))"
  shows "\<exists>arrays. registered c ds arrays \<and>
           (\<forall>k'. dd_keys (py_calls h') k' =
              (if k' = k then foldl (\<lambda>ks a. ins a ks) (dd_keys (py_calls h) k) arrays
               else dd_keys (py_calls h) k')) \<and>
           (\<forall>k'. py_keyed (fst (dd_getitem (py_calls h') k')))"
  using assms
proof (induction ds arbitrary: h)
  case Nil
  then show ?case by (simp add: registered_def)
next
  case (Cons d ds)
  from Cons.prems(1) obtain stepper py_meth dest where
    dest: "map_of (array_map c) d = Some dest"
    and rest: "setup_py_dests c stp k ds (h\<lparr>py_calls := dd_setitem (py_calls h) k dest (py_meth, dest)\<rparr>) = Inr h'"
    by (auto simp: getitem_def split: sum.splits option.splits)
  let ?h1 = "h\<lparr>py_calls := dd_setitem (py_calls h) k dest (py_meth, dest)\<rparr>"
  have keyed1: "\<forall>k'. py_keyed (fst (dd_getitem (py_calls ?h1) k'))"
    using Cons.prems(2) by (simp add: dd_getitem_setitem py_keyed_update)
  from Cons.IH [OF rest keyed1] obtain arrays where
    reg: "registered c ds arrays"
    and ks: "\<forall>k'. dd_keys (py_calls h') k' =
              (if k' = k then foldl (\<lambda>ks a. ins a ks) (dd_keys (py_calls ?h1) k) arrays
               else dd_keys (py_calls ?h1) k')"
    and keyed: "\<forall>k'. py_keyed (fst (dd_getitem (py_calls h') k'))"
    by blast
  have "registered c (d # ds) (dest # arrays)"
    using reg dest by (simp add: registered_def)
  moreover have "\<forall>k'. dd_keys (py_calls h') k' =
              (if k' = k then foldl (\<lambda>ks a. ins a ks) (dd_keys (py_calls h) k) (dest # arrays)
               else dd_keys (py_calls h) k')"
    using ks by (simp add: dd_keys_setitem)
  ultimately show ?case
    using keyed by blast
qed

lemma registered_Nil: "registered c [] arrays \<Longrightarrow> arrays = []"
  by (simp add: registered_def)

lemma setup_py_methods_keys:
  assumes "setup_py_methods c stp items h = Inr h'"
    and "distinct (map fst items)"
    and "\<forall>k'. py_keyed (fst (dd_getitem (py_calls h) k'))"
  shows "(\<exists>arrays. registered c (dd_keys items k) arrays \<and>
            dd_keys (py_calls h') k = foldl (\<lambda>ks a. ins a ks) (dd_keys (py_calls h) k) arrays) \<and>
         (\<forall>k'. py_keyed (fst (dd_getitem (py_calls h') k')))"
  using assms
proof (induction items arbitrary: h)
  case Nil
  then show ?case by (simp add: registered_def dd_keys_def dd_getitem_def keys_def)
next
  case (Cons item items)
  obtain meth entries where item: "item = (meth, entries)"
    by (cases item) auto
  from Cons.prems(1) obtain h1 where
    one: "setup_py_dests c stp meth (keys entries) h = Inr h1"
    and rest: "setup_py_methods c stp items h1 = Inr h'"
    by (auto simp: item split: sum.splits)
  from Cons.prems(2) have dist: "distinct (map fst items)" and fresh: "meth \<notin> fst ` set items"
    by (simp_all add: item)
  from setup_py_dests_keys [OF one Cons.prems(3)] obtain arrays1 where
    reg1: "registered c (keys entries) arrays1"
    and ks1: "\<forall>k'. dd_keys (py_calls h1) k' =
              (if k' = meth then foldl (\<lambda>ks a. ins a ks) (dd_keys (py_calls h) meth) arrays1
               else dd_keys (py_calls h) k')"
    and keyed1: "\<forall>k'. py_keyed (fst (dd_getitem (py_calls h1) k'))"
    by blast
  from Cons.IH [OF rest dist keyed1] obtain arrays2 where
    reg2: "registered c (dd_keys items k) arrays2"
    and ks2: "dd_keys (py_calls h') k = foldl (\<lambda>ks a. ins a ks) (dd_keys (py_calls h1) k) arrays2"
    and keyed: "\<forall>k'. py_keyed (fst (dd_getitem (py_calls h') k'))"
    by blast
  show ?case
  proof (cases "meth = k")
    case True
    with fresh have "dd_keys items k = []"
      by (simp add: dd_keys_absent)
    with reg2 have "arrays2 = []"
      by (simp add: registered_Nil)
    with ks1 ks2 reg1 keyed True show ?thesis
      by (auto simp: item dd_keys_Cons)
  next
    case False
    with ks1 ks2 reg2 keyed show ?thesis
      by (auto simp: item dd_keys_Cons)
  qed
qed

lemma setup_dests_keys:
  assumes "setup_dests env c w k items h = Inr h'"
    and "\<forall>k'. call_keyed (fst (dd_getitem (calls h) k'))"
  shows "\<exists>arrays. registered c (map fst items) arrays \<and>
           (\<forall>k'. dd_keys (calls h') k' =
              (if k' = k then foldl (\<lambda>ks a. ins a ks) (dd_keys (calls h) k) arrays
               else dd_keys (calls h) k')) \<and>
           (\<forall>k'. call_keyed (fst (dd_getitem (calls h') k')))"
  using assms
proof (induction items arbitrary: h)
  case Nil
  then show ?case by (simp add: registered_def)
next
  case (Cons item items)
  obtain d kern args where item: "item = (d, kern, args)"
    by (cases item) auto
  from Cons.prems(1) obtain dest call all_args where
    dest: "map_of (array_map c) d = Some dest"
    and rest: "setup_dests env c w k items (h\<lparr>calls := dd_setitem (calls h) k dest (call, all_args, dest)\<rparr>) = Inr h'"
    by (auto simp: item getitem_def Let_def split: sum.splits option.splits)
  let ?h1 = "h\<lparr>calls := dd_setitem (calls h) k dest (call, all_args, dest)\<rparr>"
  have keyed1: "\<forall>k'. call_keyed (fst (dd_getitem (calls ?h1) k'))"
    using Cons.prems(2) by (simp add: dd_getitem_setitem call_keyed_update)
  from Cons.IH [OF rest keyed1] obtain arrays where
    reg: "registered c (map fst items) arrays"
    and ks: "\<forall>k'. dd_keys (calls h') k' =
              (if k' = k then foldl (\<lambda>ks a. ins a ks) (dd_keys (calls ?h1) k) arrays
               else dd_keys (calls ?h1) k')"
    and keyed: "\<forall>k'. call_keyed (fst (dd_getitem (calls h') k'))"
    by blast
  have "registered c (map fst (item # items)) (dest # arrays)"
    using reg dest by (simp add: registered_def item)
  moreover have "\<forall>k'. dd_keys (calls h') k' =
              (if k' = k then foldl (\<lambda>ks a. ins a ks) (dd_keys (calls h) k) (dest # arrays)
               else dd_keys (calls h) k')"
    using ks by (simp add: dd_keys_setitem)
  ultimately show ?case
    using keyed by blast
qed

lemma setup_methods_data_keys:
  assumes "setup_methods_data env c w items h = Inr h'"
    and "distinct (map fst items)"
    and "\<forall>k'. call_keyed (fst (dd_getitem (calls h) k'))"
  shows "(\<exists>arrays. registered c (dd_keys items k) arrays \<and>
            dd_keys (calls h') k = foldl (\<lambda>ks a. ins a ks) (dd_keys (calls h) k) arrays) \<and>
         (\<forall>k'. call_keyed (fst (dd_getitem (calls h') k')))"
  using assms
proof (induction items arbitrary: h)
  case Nil
  then show ?case by (simp add: registered_def dd_keys_def dd_getitem_def keys_def)
next
  case (Cons item items)
  obtain meth entries where item: "item = (meth, entries)"
    by (cases item) auto
  from Cons.prems(1) obtain h1 where
    one: "setup_dests env c w meth entries h = Inr h1"
    and rest: "setup_methods_data env c w items h1 = Inr h'"
    by (auto simp: item split: sum.splits)
  from Cons.prems(2) have dist: "distinct (map fst items)" and fresh: "meth \<notin> fst ` set items"
    by (simp_all add: item)
  from setup_dests_keys [OF one Cons.prems(3)] obtain arrays1 where
    reg1: "registered c (map fst entries) arrays1"
    and ks1: "\<forall>k'. dd_keys (calls h1) k' =
              (if k' = meth then foldl (\<lambda>ks a. ins a ks) (dd_keys (calls h) meth) arrays1
               else dd_keys (calls h) k')"
    and keyed1: "\<forall>k'. call_keyed (fst (dd_getitem (calls h1) k'))"
    by blast
  from Cons.IH [OF rest dist keyed1] obtain arrays2 where
    reg2: "registered c (dd_keys items k) arrays2"
    and ks2: "dd_keys (calls h') k = foldl (\<lambda>ks a. ins a ks) (dd_keys (calls h1) k) arrays2"
    and keyed: "\<forall>k'. call_keyed (fst (dd_getitem (calls h') k'))"
    by blast
  show ?case
  proof (cases "meth = k")
    case True
    with fresh have "dd_keys items k = []"
      by (simp add: dd_keys_absent)
    with reg2 have "arrays2 = []"
      by (simp add: registered_Nil)
    with ks1 ks2 reg1 keyed True show ?thesis
      by (auto simp: item dd_keys_Cons keys_def)
  next
    case False
    with ks1 ks2 reg2 keyed show ?thesis
      by (auto simp: item dd_keys_Cons)
  qed
qed

lemma registered_distinct:
  assumes "registered c names arrays" and "distinct names"
    and "inj_on (map_of (array_map c)) (set names)"
  shows "distinct arrays"
  using assms unfolding registered_def
proof (induction names arrays rule: list_all2_induct)
  case Nil
  then show ?case by simp
next
  case (Cons d ds a as)
  have "a \<notin> set as"
  proof
    assume "a \<in> set as"
    then obtain i where i: "i < length as" "as ! i = a"
      by (auto simp: in_set_conv_nth)
    with Cons.hyps(2) have "ds ! i \<in> set ds" "map_of (array_map c) (ds ! i) = Some a"
      by (auto simp: list_all2_conv_all_nth)
    then obtain d' where d': "d' \<in> set ds" "map_of (array_map c) d' = Some a"
      by blast
    with Cons.hyps(1) Cons.prems(2) have "d' = d"
      by (auto simp: inj_on_def)
    with d'(1) Cons.prems(1) show False by simp
  qed
  moreover from Cons have "distinct as"
    by (simp add: inj_on_def)
  ultimately show ?case by simp
qed

lemma keys_forget_count: "keys (forget_count entries) = keys entries"
  by (induction entries) (auto simp: forget_count_def keys_def)

lemma built_args_forget: "built_args q (list_update args (Suc 0) v) = (built_args q args)"
  by (auto simp: built_args_def drop_update_cancel nth_list_update)

lemma built_info_forget: "built_info q (forget_count entries) = built_info q entries"
  by (induction entries) (auto simp: forget_count_def built_info_def built_args_forget)

lemma call_keyed_forget: "call_keyed (forget_count entries) = call_keyed entries"
  by (induction entries) (auto simp: forget_count_def call_keyed_def)

lemma dests_forget_count:
  "map (\<lambda>(name, call, args, dest). dest) (forget_count entries) =
   map (\<lambda>(name, call, args, dest). dest) entries"
  by (induction entries) (auto simp: forget_count_def)

lemma call_keyed_dests:
  "call_keyed entries \<Longrightarrow> map (\<lambda>(name, call, args, dest). dest) entries = keys entries"
  by (induction entries) (auto simp: call_keyed_def keys_def)

lemma py_keyed_dests:
  "py_keyed entries \<Longrightarrow> map (\<lambda>(name, py_meth, dest). dest) entries = keys entries"
  by (induction entries) (auto simp: py_keyed_def keys_def)

lemma hook_dests_append: "hook_dests (es @ fs) = hook_dests es @ hook_dests fs"
  by (induction es rule: hook_dests.induct) auto

lemma launch_dests_append: "launch_dests (es @ fs) = launch_dests es @ launch_dests fs"
  by (induction es rule: launch_dests.induct) auto

lemma dests_py_events:
  "hook_dests (py_events extra entries) = map (\<lambda>(name, py_meth, dest). dest) entries"
  "launch_dests (py_events extra entries) = []"
  by (induction entries) (auto simp: py_events_def)

lemma dests_reads:
  "hook_dests (map (\<lambda>(g, x, a). BufferRead g x a) rs @ es) = hook_dests es"
  "launch_dests (map (\<lambda>(g, x, a). BufferRead g x a) rs @ es) = launch_dests es"
  by (induction rs) auto

lemma dests_block:
  assumes "launch_block q extra (name, call, args, dest) block"
  shows "hook_dests block = []" and "launch_dests block = [dest]"
  using assms by (auto simp: launch_block_def dests_reads)

lemma dests_blocks:
  assumes "list_all2 (launch_block q extra) entries blocks"
  shows "hook_dests (concat blocks) = [] \<and>
         launch_dests (concat blocks) = map (\<lambda>(name, call, args, dest). dest) entries"
  using assms
proof (induction entries blocks rule: list_all2_induct)
  case Nil
  then show ?case by simp
next
  case (Cons item items block blocks)
  obtain name call args dest where item: "item = (name, call, args, dest)"
    by (cases item) auto
  from Cons show ?case
    by (simp add: item hook_dests_append launch_dests_append dests_block)
qed

lemma do_stage_returns_set:
  assumes "do_stage env m s = Inr s'"
  shows "\<exists>tv dtv. self_t s = Some tv \<and> self_dt s = Some dtv"
proof -
  obtain call_info calls1 where c: "dd_getitem (calls (helper s)) m = (call_info, calls1)"
    by (cases "dd_getitem (calls (helper s)) m") auto
  obtain py_call_info py_calls1 where
    p: "dd_getitem (py_calls (helper s)) (''py_'' @ m) = (py_call_info, py_calls1)"
    by (cases "dd_getitem (py_calls (helper s)) (''py_'' @ m)") auto
  from assms show ?thesis
    unfolding do_stage_def c p by (auto simp: Let_def split: option.splits)
qed

lemma do_stage_dests:
  assumes "do_stage env m s = Inr s'" and "built_info q (call_info_of s m)"
  shows "\<exists>new. trace s' = trace s @ new \<and>
           hook_dests new = map (\<lambda>(name, py_meth, dest). dest) (py_call_info_of s m) \<and>
           launch_dests new = map (\<lambda>(name, call, args, dest). dest) (call_info_of s m)"
proof -
  from do_stage_returns_set [OF assms(1)] obtain tv dtv where
    tv: "self_t s = Some tv" and dtv: "self_dt s = Some dtv"
    by blast
  define extra where "extra = [Ndarray tv (stage_dtype s), Ndarray dtv (stage_dtype s)]"
  from do_stage_run [where env = env, OF tv dtv assms(2) extra_def] assms(1) obtain blocks where
    t: "trace s' = trace s @ (py_events extra (py_call_info_of s m) @ concat blocks)"
    and l: "list_all2 (launch_block q extra) (call_info_of s m) blocks"
    by auto
  from dests_blocks [OF l] have
    "hook_dests (py_events extra (py_call_info_of s m) @ concat blocks) =
       map (\<lambda>(name, py_meth, dest). dest) (py_call_info_of s m)"
    "launch_dests (py_events extra (py_call_info_of s m) @ concat blocks) =
       map (\<lambda>(name, call, args, dest). dest) (call_info_of s m)"
    by (simp_all add: hook_dests_append launch_dests_append dests_py_events)
  with t show ?thesis by blast
qed

lemma tables_agree_refl: "tables_agree s s"
  by (simp add: tables_agree_def)

lemma tables_agree_helper: "helper s' = helper s \<Longrightarrow> tables_agree s0 s' = tables_agree s0 s"
  by (simp add: tables_agree_def call_info_of_def)

lemma exec_stmt_tables:
  assumes "exec_stmt env t0 dt0 stmt s = Inr s'" and "tables_agree s0 s"
    and "\<forall>k. distinct (keys (call_info_of s0 k))"
  shows "tables_agree s0 s'"
proof (cases stmt)
  case (Call_method name)
  with assms(1) have run: "do_stage env name s = Inr s'"
    by (simp split: if_splits)
  have "keys (call_info_of s name) = keys (call_info_of s0 name)"
    using assms(2) keys_forget_count [of "call_info_of s name"] keys_forget_count [of "call_info_of s0 name"]
    by (simp add: tables_agree_def)
  with assms(3) have "distinct (keys (call_info_of s name))"
    by simp
  from do_stage_table [OF run this]
  have a: "forget_count (call_info_of s' k) = forget_count (call_info_of s k)" for k .
  from do_stage_frame [OF run]
  have b: "fst (dd_getitem (py_calls (helper s')) k) = fst (dd_getitem (py_calls (helper s)) k)" for k
    by (elim conjE) (erule allE)
  from assms(2) show ?thesis
    unfolding tables_agree_def a b .
next
  case Compute_accelerations
  with assms(1) have "helper s' = helper s"
    using compute_accelerations_frame [of env s s'] by simp
  from tables_agree_helper [OF this] assms(2) show ?thesis
    by simp
next
  case (Do_post_stage e stage)
  with assms(1) have "helper s' = helper s"
    by (auto simp: do_post_stage_def Let_def split: option.splits)
  from tables_agree_helper [OF this] assms(2) show ?thesis
    by simp
qed

lemma exec_stmts_tables:
  assumes "exec_stmts env t0 dt0 stmts s = Inr s'" and "tables_agree s0 s"
    and "\<forall>k. distinct (keys (call_info_of s0 k))"
  shows "tables_agree s0 s'"
  using assms(1,2)
proof (induction stmts arbitrary: s)
  case Nil
  then show ?case by simp
next
  case (Cons stmt stmts)
  from Cons.prems(1) obtain s1 where
    one: "exec_stmt env t0 dt0 stmt s = Inr s1" and rest: "exec_stmts env t0 dt0 stmts s1 = Inr s'"
    by (auto split: sum.splits)
  from exec_stmt_tables [OF one Cons.prems(2) assms(3)] have "tables_agree s0 s1" .
  from Cons.IH [OF rest this] show ?case .
qed

lemma run_steps_tables:
  assumes "run_steps env tds s = Inr s'" and "tables_agree s0 s"
    and "\<forall>k. distinct (keys (call_info_of s0 k))"
  shows "tables_agree s0 s'"
  using assms(1,2)
proof (induction tds arbitrary: s)
  case Nil
  then show ?case by simp
next
  case (Cons td tds)
  obtain t0 dt0 where td: "td = (t0, dt0)"
    by (cases td) auto
  from Cons.prems(1) obtain s1 where
    one: "step env t0 dt0 s = Inr s1" and rest: "run_steps env tds s1 = Inr s'"
    by (auto simp: td split: sum.splits)
  let ?s = "s\<lparr>self_orig_t := Some t0, self_t := Some t0, self_dt := Some dt0\<rparr>"
  have "helper ?s = helper s"
    by simp
  from tables_agree_helper [OF this] Cons.prems(2) have "tables_agree s0 ?s"
    by simp
  with one have "tables_agree s0 s1"
    unfolding step_def using assms(3) by (simp add: exec_stmts_tables)
  from Cons.IH [OF rest this] show ?case .
qed

lemma filter_sort_distinct:
  "distinct names \<Longrightarrow> distinct (filter P (sort names))"
  by simp

lemma setup_tables:
  assumes gc: "get_code c (helper_init (Some ob)) = Inr (out, h1)"
    and su: "setup_compiled_module env c module acc w h1 = Inr s0"
    and d: "distinct (keys (steppers ob))"
    and inj: "inj_on (map_of (array_map c)) (set (keys (steppers ob)))"
  shows "built_calls (queue c) (calls (helper s0)) \<and>
         call_keyed (call_info_of s0 k) \<and>
         py_keyed (fst (dd_getitem (py_calls (helper s0)) kp)) \<and>
         distinct (keys (call_info_of s0 k)) \<and>
         registered c
           (filter (\<lambda>d. k \<in> set (get_stepper_method_wrapper_names c) \<and> has_stepper_loop c d k)
              (sort (keys (steppers ob))))
           (keys (call_info_of s0 k)) \<and>
         registered c
           (filter (\<lambda>d. kp \<in> (\<lambda>m. ''py_'' @ m) ` set (get_stepper_method_wrapper_names c) \<and>
                        has_py_stage ob d kp)
              (sort (keys (steppers ob))))
           (keys (fst (dd_getitem (py_calls (helper s0)) kp)))"
proof -
  let ?names = "sort (keys (steppers ob))"
  let ?K = "filter (\<lambda>d. k \<in> set (get_stepper_method_wrapper_names c) \<and> has_stepper_loop c d k) ?names"
  let ?P = "filter (\<lambda>d. kp \<in> (\<lambda>m. ''py_'' @ m) ` set (get_stepper_method_wrapper_names c) \<and>
                        has_py_stage ob d kp) ?names"
  from get_code_run [OF gc d, of k kp] have
    ob1: "object h1 = Some ob" and pc1: "py_calls h1 = []" and c1: "calls h1 = []"
    and dd1: "distinct (keys (data h1))" and dp1: "distinct (keys (py_data h1))"
    and kd1: "dd_keys (data h1) k = ?K" and kp1: "dd_keys (py_data h1) kp = ?P"
    by simp_all
  let ?hp = "h1\<lparr>program := Some module\<rparr>"
  from su obtain h2 where
    sc: "setup_call_data env c w ?hp = Inr h2"
    and init: "opencl_integrator_init c h2 acc w = Inr s0"
    by (auto simp: setup_compiled_module_def split: sum.splits)
  from init have hs: "helper s0 = h2"
    by (auto simp: opencl_integrator_init_def split: sum.splits)
  from sc ob1 obtain hq where
    py: "setup_py_methods c (steppers ob) (py_data h1) ?hp = Inr hq"
    and da: "setup_methods_data env c w (data hq) hq = Inr h2"
    by (auto simp: setup_call_data_def split: sum.splits)
  from setup_py_methods_calls [OF py] have
    cq: "calls hq = []" and dq: "data hq = data h1"
    by (simp_all add: c1)
  from setup_methods_data_frame [OF da] have p2: "py_calls h2 = py_calls hq"
    by (simp add: same_helper_but_calls_def)
  have sub: "inj_on (map_of (array_map c)) (set (filter P ?names))" for P
    using inj by (rule inj_on_subset) auto
  \<comment> \<open>the hook table\<close>
  have "\<forall>k'. py_keyed (fst (dd_getitem (py_calls ?hp) k'))"
    by (simp add: pc1)
  from setup_py_methods_keys [OF py _ this, of kp] dp1 obtain parrays where
    preg: "registered c ?P parrays"
    and pks: "dd_keys (py_calls hq) kp = foldl (\<lambda>ks a. ins a ks) [] parrays"
    and pkeyed: "py_keyed (fst (dd_getitem (py_calls hq) kp))"
    by (auto simp: keys_def pc1 kp1)
  have "distinct parrays"
    using preg filter_sort_distinct [OF d] sub by (rule registered_distinct)
  then have pk: "dd_keys (py_calls hq) kp = parrays"
    using pks by (simp add: foldl_ins_fresh)
  \<comment> \<open>the call table\<close>
  have "\<forall>k'. call_keyed (fst (dd_getitem (calls hq) k'))"
    by (simp add: cq)
  from setup_methods_data_keys [OF da _ this, of k] dd1 obtain arrays where
    reg: "registered c ?K arrays"
    and ks: "dd_keys (calls h2) k = foldl (\<lambda>ks a. ins a ks) [] arrays"
    and keyed: "call_keyed (fst (dd_getitem (calls h2) k))"
    by (auto simp: keys_def cq dq kd1)
  have da': "distinct arrays"
    using reg filter_sort_distinct [OF d] sub by (rule registered_distinct)
  then have ck: "dd_keys (calls h2) k = arrays"
    using ks by (simp add: foldl_ins_fresh)
  have "built_calls (queue c) (calls (helper s0))"
    using su c1 by (rule setup_compiled_module_built)
  with keyed pkeyed da' reg preg ck pk show ?thesis
    by (simp add: hs p2 call_info_of_def dd_keys_def)
qed

text \<open>
  Claim C5. Dictionaries keep insertion order. After code generation and setup, with the
  arrays of different destination names different, the runtime's tables are such that in
  every stage execution the hooks are called for the arrays registered under the names of
  the destinations that have the hook, in sorted order of the names (the order of
  \<^verbatim>\<open>sorted\<close> on strings), and the kernels are launched for the arrays registered under
  the names of the destinations that have the stage, in sorted order of the names. Steps
  leave the tables as they are but for the stored counts, so the order is the same in
  every timestep.
\<close>

theorem destinations_in_sorted_order:
  assumes "get_code c (helper_init (Some ob)) = Inr (out, h1)"
    and "setup_compiled_module env c module acc w h1 = Inr s0"
    and "distinct (keys (steppers ob))"
    and "inj_on (map_of (array_map c)) (set (keys (steppers ob)))"
  shows "tables_agree s0 s0 \<and>
         (tables_agree s0 s \<and> run_steps env tds s = Inr s2 \<longrightarrow> tables_agree s0 s2) \<and>
         (tables_agree s0 s \<and> m \<in> set (get_stepper_method_wrapper_names c) \<and>
          do_stage env m s = Inr s' \<longrightarrow>
            (\<exists>new. trace s' = trace s @ new \<and>
               registered c
                 (filter (\<lambda>d. has_py_stage ob d (''py_'' @ m)) (sort (keys (steppers ob))))
                 (hook_dests new) \<and>
               registered c
                 (filter (\<lambda>d. has_stepper_loop c d m) (sort (keys (steppers ob))))
                 (launch_dests new)))"
proof (intro conjI impI)
  show "tables_agree s0 s0"
    by (rule tables_agree_refl)
next
  assume a: "tables_agree s0 s \<and> run_steps env tds s = Inr s2"
  have "\<forall>k. distinct (keys (call_info_of s0 k))"
    using setup_tables [OF assms] by blast
  with a show "tables_agree s0 s2"
    using run_steps_tables [of env tds s s2 s0] by blast
next
  assume a: "tables_agree s0 s \<and> m \<in> set (get_stepper_method_wrapper_names c) \<and>
          do_stage env m s = Inr s'"
  then have agree: "tables_agree s0 s" and mw: "m \<in> set (get_stepper_method_wrapper_names c)"
    and run: "do_stage env m s = Inr s'"
    by simp_all
  from setup_tables [OF assms, of m "''py_'' @ m"] mw have
    built: "built_calls (queue c) (calls (helper s0))"
    and ckeyed: "call_keyed (call_info_of s0 m)"
    and pkeyed: "py_keyed (py_call_info_of s0 m)"
    and creg: "registered c (filter (\<lambda>d. has_stepper_loop c d m) (sort (keys (steppers ob))))
                 (keys (call_info_of s0 m))"
    and preg: "registered c (filter (\<lambda>d. has_py_stage ob d (''py_'' @ m)) (sort (keys (steppers ob))))
                 (keys (py_call_info_of s0 m))"
    by (simp_all add: py_call_info_of_def)
  from agree have fc: "forget_count (call_info_of s m) = forget_count (call_info_of s0 m)"
    and pe: "py_call_info_of s m = py_call_info_of s0 m"
    by (simp_all add: tables_agree_def py_call_info_of_def)
  have "built_info (queue c) (call_info_of s0 m)"
    using built_calls_lookup [OF built, of m] by (simp add: call_info_of_def)
  then have "built_info (queue c) (call_info_of s m)"
    using built_info_forget [of "queue c" "call_info_of s m"]
      built_info_forget [of "queue c" "call_info_of s0 m"] fc by simp
  from do_stage_dests [OF run this] obtain new where
    t: "trace s' = trace s @ new"
    and hd: "hook_dests new = map (\<lambda>(name, py_meth, dest). dest) (py_call_info_of s m)"
    and ld: "launch_dests new = map (\<lambda>(name, call, args, dest). dest) (call_info_of s m)"
    by blast
  have "hook_dests new = keys (py_call_info_of s0 m)"
    using hd pe py_keyed_dests [OF pkeyed] by simp
  moreover have "launch_dests new = keys (call_info_of s0 m)"
    using ld dests_forget_count [of "call_info_of s m"] dests_forget_count [of "call_info_of s0 m"]
      fc call_keyed_dests [OF ckeyed] by simp
  ultimately show "\<exists>new. trace s' = trace s @ new \<and>
               registered c
                 (filter (\<lambda>d. has_py_stage ob d (''py_'' @ m)) (sort (keys (steppers ob))))
                 (hook_dests new) \<and>
               registered c
                 (filter (\<lambda>d. has_stepper_loop c d m) (sort (keys (steppers ob))))
                 (launch_dests new)"
    using t creg preg by auto
qed

lemma ex_registered_hooks:
  "filter (\<lambda>d. has_py_stage ex_integrator d (''py_'' @ ''stage1'')) (sort (keys (steppers ex_integrator))) =
     [''boundary'', ''fluid'']"
  by (simp add: has_py_stage_def ex_integrator_def keys_def)

lemma ex_registered_launches:
  "filter (\<lambda>d. has_stepper_loop ex_collab d ''stage1'') (sort (keys (steppers ex_integrator))) =
     [''boundary'', ''fluid'']"
  by (simp add: ex_collab_def ex_integrator_def keys_def)

theorem destinations_in_sorted_order_witness:
  "(\<exists>out. get_code ex_collab (helper_init (Some ex_integrator)) =
      Inr (out, ex_helper\<lparr>py_calls := [], calls := [], program := None\<rparr>)) \<and>
   setup_compiled_module ex_env ex_collab [''stage1_fluid'', ''stage2_fluid'', ''stage1_boundary''] 9 0
     (ex_helper\<lparr>py_calls := [], calls := [], program := None\<rparr>) = Inr ex_fresh \<and>
   distinct (keys (steppers ex_integrator)) \<and>
   inj_on (map_of (array_map ex_collab)) (set (keys (steppers ex_integrator))) \<and>
   tables_agree ex_fresh ex_running \<and>
   ''stage1'' \<in> set (get_stepper_method_wrapper_names ex_collab) \<and>
   (\<exists>s2. run_steps ex_env [(0, 1)] ex_running = Inr s2 \<and> tables_agree ex_fresh s2) \<and>
   (\<exists>s' new. do_stage ex_env ''stage1'' ex_running = Inr s' \<and>
      trace s' = trace ex_running @ new \<and>
      registered ex_collab [''boundary'', ''fluid''] (hook_dests new) \<and>
      registered ex_collab [''boundary'', ''fluid''] (launch_dests new))"
proof -
  from ex_get_code obtain out where
    gc: "get_code ex_collab (helper_init (Some ex_integrator)) =
           Inr (out, ex_helper\<lparr>py_calls := [], calls := [], program := None\<rparr>)"
    by (cases "get_code ex_collab (helper_init (Some ex_integrator) :: int helper)") auto
  have d: "distinct (keys (steppers ex_integrator))"
    by (simp add: ex_integrator_def keys_def)
  have inj: "inj_on (map_of (array_map ex_collab)) (set (keys (steppers ex_integrator)))"
    by (simp add: ex_integrator_def ex_collab_def keys_def)
  have agree: "tables_agree ex_fresh ex_running"
    by (simp add: tables_agree_def call_info_of_def ex_running_def)
  have mw: "''stage1'' \<in> set (get_stepper_method_wrapper_names ex_collab)"
    by (simp add: ex_collab_def)
  have "\<exists>s1. step ex_env 0 1 ex_running = Inr s1"
    by (simp add: step_def ex_running_def ex_fresh_def ex_helper_def ex_env_def do_stage_def
        dd_getitem_def dd_setitem_def call_kernel_def list_setitem_def store_args_def observe_def
        external_call_def do_post_stage_def Let_def)
  then obtain s2 where steps: "run_steps ex_env [(0, 1)] ex_running = Inr s2"
    by auto
  from ex_stage1_trace obtain s' where run: "do_stage ex_env ''stage1'' ex_running = Inr s'"
    by (cases "do_stage ex_env ''stage1'' ex_running") auto
  note all = destinations_in_sorted_order [OF gc ex_setup d inj,
      where s = ex_running and tds = "[(0, 1)]" and ?s2.0 = s2 and m = "''stage1''" and s' = s']
  have 1: "tables_agree ex_fresh s2"
    by (rule all [THEN conjunct2, THEN conjunct1, rule_format]) (intro conjI agree steps)
  have "\<exists>new. trace s' = trace ex_running @ new \<and>
      registered ex_collab
        (filter (\<lambda>d. has_py_stage ex_integrator d (''py_'' @ ''stage1'')) (sort (keys (steppers ex_integrator))))
        (hook_dests new) \<and>
      registered ex_collab
        (filter (\<lambda>d. has_stepper_loop ex_collab d ''stage1'') (sort (keys (steppers ex_integrator))))
        (launch_dests new)"
    by (rule all [THEN conjunct2, THEN conjunct2, rule_format]) (intro conjI agree mw run)
  then obtain new where 2: "trace s' = trace ex_running @ new"
    "registered ex_collab [''boundary'', ''fluid''] (hook_dests new)"
    "registered ex_collab [''boundary'', ''fluid''] (launch_dests new)"
    unfolding ex_registered_hooks ex_registered_launches by (elim exE conjE)
  have 3: "\<exists>s' new. do_stage ex_env ''stage1'' ex_running = Inr s' \<and>
      trace s' = trace ex_running @ new \<and>
      registered ex_collab [''boundary'', ''fluid''] (hook_dests new) \<and>
      registered ex_collab [''boundary'', ''fluid''] (launch_dests new)"
    by (rule exI [of _ s'], rule exI [of _ new]) (intro conjI run 2)
  have 4: "\<exists>s2. run_steps ex_env [(0, 1)] ex_running = Inr s2 \<and> tables_agree ex_fresh s2"
    by (rule exI [of _ s2]) (intro conjI steps 1)
  have 0: "\<exists>out. get_code ex_collab (helper_init (Some ex_integrator)) =
      Inr (out, ex_helper\<lparr>py_calls := [], calls := [], program := None\<rparr>)"
    by (rule exI [of _ out]) (rule gc)
  show ?thesis
    by (intro conjI 0 ex_setup d inj agree mw 4 3)
qed

end
